theory Spec2Isabelle
  imports Complex_Main "HOL-Library.Multiset" "HOL-Library.Product_Lexorder"
begin

section \<open>JavaScript values used by the pipeline\<close>

subsection \<open>Numbers\<close>

text \<open>
  A finite JavaScript Number is a binary64 value, hence a rational. Counts, sums of
  integers and timestamps stay far below \<open>2 ^ 53\<close> and are exact; the two places where
  the source divides (\<^verbatim>\<open>occupiedSeats / totalSeats\<close> and the mean of the percentages) and
  the multiplication by 100 round their exact result to the nearest binary64 value, ties
  to the even significand. \<open>binary64\<close> is that rounding for the normal range (no
  overflow, no subnormals: the operands here are quotients of array lengths and sums).
\<close>

fun bits :: "nat \<Rightarrow> nat" where
  "bits n = (if n = 0 then 0 else Suc (bits (n div 2)))"

declare bits.simps [simp del]

definition ilog2 :: "rat \<Rightarrow> int" where
  \<comment> \<open>the binary exponent of a positive number: \<open>2 ^ e \<le> x < 2 ^ (e + 1)\<close>\<close>
  "ilog2 x = (if 1 \<le> x then int (bits (nat \<lfloor>x\<rfloor>)) - 1
              else - int (bits (nat (\<lceil>1 / x\<rceil> - 1))))"

definition roundTiesToEven :: "rat \<Rightarrow> int" where
  "roundTiesToEven y =
     (let f = \<lfloor>y\<rfloor>; r = y - of_int f
      in if r < 1 / 2 then f
         else if 1 / 2 < r then f + 1
         else if even f then f else f + 1)"

definition binary64 :: "rat \<Rightarrow> rat" where
  \<comment> \<open>53 significant bits: scale into \<open>[2 ^ 52, 2 ^ 53)\<close>, round, scale back\<close>
  "binary64 x =
     (if x = 0 then 0
      else let e = ilog2 \<bar>x\<bar>
           in sgn x * of_int (roundTiesToEven (\<bar>x\<bar> * 2 powi (52 - e))) * 2 powi (e - 52))"

definition Math_round :: "rat \<Rightarrow> int" where
  \<comment> \<open>\<^verbatim>\<open>Math.round\<close>: the nearest integer, a tie going up\<close>
  "Math_round x = \<lfloor>x + 1 / 2\<rfloor>"

subsection \<open>Errors, optional arrays, objects\<close>

datatype js_error = RangeError | TypeError

definition orEmpty :: "'a list option \<Rightarrow> 'a list" where
  \<comment> \<open>\<^verbatim>\<open>xs || []\<close> and \<^verbatim>\<open>xs?.forEach\<close>: a missing array contributes nothing\<close>
  "orEmpty xs = (case xs of None \<Rightarrow> [] | Some ys \<Rightarrow> ys)"

text \<open>
  An object received as JSON is the list of its own properties. \<^verbatim>\<open>Object.keys\<close> and
  \<^verbatim>\<open>Object.values\<close> enumerate the same properties in the same order.
\<close>

definition Object_keys :: "('k \<times> 'v) list \<Rightarrow> 'k list" where
  "Object_keys obj = map fst obj"

definition Object_values :: "('k \<times> 'v) list \<Rightarrow> 'v list" where
  "Object_values obj = map snd obj"

text \<open>
  An object that the code fills itself under the keys \<^verbatim>\<open>`${n}`\<close> of non-negative integers
  \<open>n\<close> is kept as the list of its properties in creation order. Enumeration does not
  follow creation order: property names that are array indices (canonical decimal strings
  below \<open>2 ^ 32 - 1\<close>) come first, in ascending numeric order, and the other names follow
  in creation order (OrdinaryOwnPropertyKeys).
\<close>

definition isArrayIndex :: "nat \<Rightarrow> bool" where
  "isArrayIndex k \<longleftrightarrow> k < 4294967295"

definition ownProperties :: "(nat \<times> 'v) list \<Rightarrow> (nat \<times> 'v) list" where
  "ownProperties obj =
     sort_key fst (filter (\<lambda>p. isArrayIndex (fst p)) obj) @ filter (\<lambda>p. \<not> isArrayIndex (fst p)) obj"

subsection \<open>Array.prototype.sort\<close>

text \<open>
  \<^verbatim>\<open>sort\<close> with a comparator is stable, and with a consistent comparator it returns the
  elements in non-decreasing comparator order; the two together fix the result, whatever
  algorithm the engine runs. Insertion from the right, each element placed before the
  first element it does not exceed, computes it. Both comparators of the source compare
  timestamps and integers, so they are consistent.
\<close>

fun insertBy :: "('a \<Rightarrow> 'a \<Rightarrow> int) \<Rightarrow> 'a \<Rightarrow> 'a list \<Rightarrow> 'a list" where
  "insertBy cmp x [] = [x]"
| "insertBy cmp x (y # ys) = (if cmp x y \<le> 0 then x # y # ys else y # insertBy cmp x ys)"

definition Array_sort :: "('a \<Rightarrow> 'a \<Rightarrow> int) \<Rightarrow> 'a list \<Rightarrow> 'a list" where
  "Array_sort cmp xs = foldr (insertBy cmp) xs []"

section \<open>Backend: the seat-availability handler\<close>

text \<open>
  The raw seat-state map tags each seat id with \<^verbatim>\<open>'Available'\<close>, \<^verbatim>\<open>'Occupied'\<close> or
  something else. The handler adds four fields to the upstream payload.
\<close>

type_synonym 'k seat_map = "('k \<times> string) list"

record seat_data =
  totalSeats :: nat
  occupiedSeats :: nat
  availableSeats :: nat
  occupancyPercentage :: int

definition enrichedData :: "'k seat_map option \<Rightarrow> seat_data" where
  "enrichedData data_seatAvailabilities =
     (let seatAvailabilities = orEmpty data_seatAvailabilities;
          total = length (Object_keys seatAvailabilities);
          occupied = length (filter (\<lambda>s. s = ''Occupied'') (Object_values seatAvailabilities));
          available = length (filter (\<lambda>s. s = ''Available'') (Object_values seatAvailabilities))
      in \<lparr>seat_data.totalSeats = total,
          seat_data.occupiedSeats = occupied,
          seat_data.availableSeats = available,
          seat_data.occupancyPercentage =
            (if total > 0
             then Math_round (binary64 (binary64 (of_nat occupied / of_nat total) * 100))
             else 0)\<rparr>)"

section \<open>Frontend service: bounded-concurrency batch fetches\<close>

text \<open>
  \<^verbatim>\<open>fetchShowtimesForTheatres\<close> and \<^verbatim>\<open>fetchSeatAvailabilityBatch\<close> run the same worker
  pool. A worker is a chain of \<^verbatim>\<open>processNext\<close> calls: it returns when it finds the queue
  empty, otherwise it shifts the first item and awaits its fetch. Between two awaits the
  code runs without interruption, so the state of the pool is the queue, the fetches that
  are awaited (one per worker that has not returned) and the results pushed so far.
\<close>

record ('a, 'r) pool =
  queue :: "'a list"
  inflight :: "'a list"
  results :: "'r list"

definition processNext :: "('a, 'r) pool \<Rightarrow> ('a, 'r) pool" where
  \<comment> \<open>from the entry of \<^verbatim>\<open>processNext\<close> to its \<^verbatim>\<open>await\<close>, or to its \<^verbatim>\<open>return\<close>\<close>
  "processNext p =
     (case queue p of
        [] \<Rightarrow> p
      | item # rest \<Rightarrow> p\<lparr>queue := rest, inflight := inflight p @ [item]\<rparr>)"

definition settle :: "('a \<Rightarrow> 'r) \<Rightarrow> nat \<Rightarrow> ('a, 'r) pool \<Rightarrow> ('a, 'r) pool" where
  \<comment> \<open>the awaited fetch number \<open>i\<close> settles: its worker pushes the result that the
      \<^verbatim>\<open>try\<close>/\<^verbatim>\<open>catch\<close> builds and calls \<^verbatim>\<open>processNext\<close> again\<close>
  "settle handle i p =
     processNext
       (p\<lparr>inflight := take i (inflight p) @ drop (Suc i) (inflight p),
          results := results p @ [handle (inflight p ! i)]\<rparr>)"

text \<open>
  The order in which the awaited fetches settle belongs to the network. \<open>sched\<close> chooses
  it: at step \<open>t\<close> the fetch number \<open>sched t mod length (inflight p)\<close> settles.
  \<^verbatim>\<open>Promise.all(workers)\<close> resolves when every worker has returned.
\<close>

function awaitAll :: "(nat \<Rightarrow> nat) \<Rightarrow> nat \<Rightarrow> ('a \<Rightarrow> 'r) \<Rightarrow> ('a, 'r) pool \<Rightarrow> 'r list" where
  "awaitAll sched t handle p =
     (if inflight p = [] then results p
      else awaitAll sched (Suc t) handle (settle handle (sched t mod length (inflight p)) p))"
  by pat_completeness auto
termination
proof (relation "measure (\<lambda>(sched, t, handle, p). length (queue p) + length (inflight p))")
  fix sched :: "nat \<Rightarrow> nat" and t :: nat and handle :: "'a \<Rightarrow> 'r" and p :: "('a, 'r) pool"
  assume "inflight p \<noteq> []"
  then have "sched t mod length (inflight p) < length (inflight p)" by simp
  then show "((sched, Suc t, handle, settle handle (sched t mod length (inflight p)) p),
              (sched, t, handle, p))
             \<in> measure (\<lambda>(sched, t, handle, p). length (queue p) + length (inflight p))"
    by (cases "queue p") (auto simp: settle_def processNext_def)
qed simp

declare awaitAll.simps [simp del]

definition startWorkers :: "nat \<Rightarrow> 'a list \<Rightarrow> ('a, 'r) pool" where
  \<comment> \<open>\<^verbatim>\<open>Array(n).fill(0).map(() => processNext())\<close>: \<open>n\<close> calls, each run to its await\<close>
  "startWorkers n items = (processNext ^^ n) \<lparr>queue = items, inflight = [], results = []\<rparr>"

definition runBatch ::
  "(nat \<Rightarrow> nat) \<Rightarrow> ('a \<Rightarrow> 'r) \<Rightarrow> 'a list \<Rightarrow> int \<Rightarrow> js_error + 'r list" where
  \<comment> \<open>\<^verbatim>\<open>Array(n)\<close> throws a RangeError for a negative \<open>n\<close>\<close>
  "runBatch sched handle items concurrency =
     (let n = min concurrency (int (length items))
      in if n < 0 then Inl RangeError
         else Inr (awaitAll sched 0 handle (startWorkers (nat n) items)))"

text \<open>
  The same run with every state of the pool kept: the state in which \<^verbatim>\<open>Promise.all\<close> is
  first awaited, then the state after each fetch that settles. The list \<open>inflight\<close> of a
  state holds the fetches awaited in it, one for each worker that has not returned.
\<close>

function poolRun ::
  "(nat \<Rightarrow> nat) \<Rightarrow> nat \<Rightarrow> ('a \<Rightarrow> 'r) \<Rightarrow> ('a, 'r) pool \<Rightarrow> ('a, 'r) pool list" where
  "poolRun sched t handle p =
     p # (if inflight p = [] then []
          else poolRun sched (Suc t) handle (settle handle (sched t mod length (inflight p)) p))"
  by pat_completeness auto
termination
proof (relation "measure (\<lambda>(sched, t, handle, p). length (queue p) + length (inflight p))")
  fix sched :: "nat \<Rightarrow> nat" and t :: nat and handle :: "'a \<Rightarrow> 'r" and p :: "('a, 'r) pool"
  assume "inflight p \<noteq> []"
  then have "sched t mod length (inflight p) < length (inflight p)" by simp
  then show "((sched, Suc t, handle, settle handle (sched t mod length (inflight p)) p),
              (sched, t, handle, p))
             \<in> measure (\<lambda>(sched, t, handle, p). length (queue p) + length (inflight p))"
    by (cases "queue p") (auto simp: settle_def processNext_def)
qed simp

declare poolRun.simps [simp del]

definition batchRun ::
  "(nat \<Rightarrow> nat) \<Rightarrow> ('a \<Rightarrow> 'r) \<Rightarrow> 'a list \<Rightarrow> int \<Rightarrow> js_error + ('a, 'r) pool list" where
  \<comment> \<open>the states that \<open>runBatch\<close> goes through; it returns the \<open>results\<close> of the last one\<close>
  "batchRun sched handle items concurrency =
     (let n = min concurrency (int (length items))
      in if n < 0 then Inl RangeError
         else Inr (poolRun sched 0 handle (startWorkers (nat n) items)))"


subsection \<open>Payloads of the showtimes and seat endpoints\<close>

record theatre =
  theatreId :: nat
  theatreName :: string

text \<open>
  A timestamp stands for the date-time string it is parsed from: \<^verbatim>\<open>new Date(s)\<close> of a
  well-formed date, in milliseconds.
\<close>

record api_session =
  showStartDateTime :: int
  seatsRemaining :: int
  isSoldOut :: bool
  seatMapUrl :: string
  auditorium :: string
  vistaSessionId :: nat

record api_experience =
  experienceTypes :: "string list option"
  sessions :: "api_session list option"

record api_movie =
  id' :: nat
  name :: string
  mediumPosterImageUrl :: string
  smallPosterImageUrl :: string
  runtimeInMinutes :: nat
  presentationType :: string
  experiences :: "api_experience list option"

record api_date =
  movies :: "api_movie list option"

record api_theatre =
  theatreId :: nat
  theatre :: string
  dates :: "api_date list option"

record showtime_result =
  theatre :: theatre
  showtimes :: "api_theatre list option"
  error :: "string option"
  success :: bool

record seat_result =
  showtimeId :: nat
  theatreId :: nat
  seatData :: "seat_data option"
  error :: "string option"
  success :: bool

text \<open>
  A fetch either returns its payload or throws an error with a message. What a request
  returns is a parameter: \<open>fetchShowtimes theatreId date\<close> and
  \<open>fetchSeatAvailability theatreId showtimeId\<close>.
\<close>

definition showtimesResult ::
  "(nat \<Rightarrow> string \<Rightarrow> string + api_theatre list) \<Rightarrow> string \<Rightarrow> theatre \<Rightarrow> showtime_result" where
  "showtimesResult fetchShowtimes date t =
     (case fetchShowtimes (theatre.theatreId t) date of
        Inr payload \<Rightarrow>
          \<lparr>showtime_result.theatre = t, showtimes = Some payload,
           showtime_result.error = None, showtime_result.success = True\<rparr>
      | Inl message \<Rightarrow>
          \<lparr>showtime_result.theatre = t, showtimes = None,
           showtime_result.error = Some message, showtime_result.success = False\<rparr>)"

definition fetchShowtimesForTheatres ::
  "(nat \<Rightarrow> nat) \<Rightarrow> (nat \<Rightarrow> string \<Rightarrow> string + api_theatre list) \<Rightarrow>
   theatre list \<Rightarrow> string \<Rightarrow> int \<Rightarrow> js_error + showtime_result list" where
  "fetchShowtimesForTheatres sched fetchShowtimes theatres date concurrency =
     runBatch sched (showtimesResult fetchShowtimes date) theatres concurrency"

definition seatResult ::
  "(nat \<Rightarrow> nat \<Rightarrow> string + seat_data) \<Rightarrow> nat \<times> nat \<Rightarrow> seat_result" where
  \<comment> \<open>a showtime is read only through its \<^verbatim>\<open>theatreId\<close> and its \<^verbatim>\<open>vistaSessionId\<close>:
      the batch takes the pair of the two\<close>
  "seatResult fetchSeatAvailability showtime =
     (case fetchSeatAvailability (fst showtime) (snd showtime) of
        Inr payload \<Rightarrow>
          \<lparr>showtimeId = snd showtime, seat_result.theatreId = fst showtime,
           seatData = Some payload, seat_result.error = None, seat_result.success = True\<rparr>
      | Inl message \<Rightarrow>
          \<lparr>showtimeId = snd showtime, seat_result.theatreId = fst showtime,
           seatData = None, seat_result.error = Some message, seat_result.success = False\<rparr>)"

definition fetchSeatAvailabilityBatch ::
  "(nat \<Rightarrow> nat) \<Rightarrow> (nat \<Rightarrow> nat \<Rightarrow> string + seat_data) \<Rightarrow>
   (nat \<times> nat) list \<Rightarrow> int \<Rightarrow> js_error + seat_result list" where
  "fetchSeatAvailabilityBatch sched fetchSeatAvailability items concurrency =
     runBatch sched (seatResult fetchSeatAvailability) items concurrency"


section \<open>The pipeline of loadTheatresAndShowtimes\<close>

subsection \<open>Step 1: theatres of all selected areas\<close>

definition addUnique :: "theatre \<Rightarrow> theatre list \<times> nat set \<Rightarrow> theatre list \<times> nat set" where
  "addUnique t st =
     (case st of (allTheatres, seenTheatreIds) \<Rightarrow>
        if theatre.theatreId t \<notin> seenTheatreIds
        then (allTheatres @ [t], insert (theatre.theatreId t) seenTheatreIds)
        else (allTheatres, seenTheatreIds))"

definition locateTheatres ::
  "('loc \<Rightarrow> string + theatre list option) \<Rightarrow> 'loc list \<Rightarrow> theatre list" where
  \<comment> \<open>a lookup that throws is logged and its area skipped; a payload without
      \<^verbatim>\<open>nearbyTheatres\<close> counts as an empty list\<close>
  "locateTheatres fetchTheatres locations =
     fst (fold (\<lambda>loc st. case fetchTheatres loc of
                             Inl message \<Rightarrow> st
                           | Inr nearbyTheatres \<Rightarrow> fold addUnique (orEmpty nearbyTheatres) st)
               locations ([], {}))"

text \<open>
  What the lookups of all areas returned, in the order in which the areas are processed;
  the merged list is compared with it.
\<close>

definition returnedTheatres ::
  "('loc \<Rightarrow> string + theatre list option) \<Rightarrow> 'loc list \<Rightarrow> theatre list" where
  "returnedTheatres fetchTheatres locations =
     concat (map (\<lambda>loc. case fetchTheatres loc of Inl message \<Rightarrow> [] | Inr ts \<Rightarrow> orEmpty ts)
               locations)"

subsection \<open>Step 3: the flat session list\<close>

record session =
  movieId :: nat
  movieName :: string
  posterUrl :: string
  runtime :: nat
  presentationType :: string
  theatreId :: nat
  theatreName :: string
  showStartDateTime :: int
  seatsRemaining :: int
  isSoldOut :: bool
  seatMapUrl :: string
  auditorium :: string
  vistaSessionId :: nat
  experienceTypes :: "string list"
  totalSeats :: "nat option"
  occupiedSeats :: "nat option"
  availableSeats :: "nat option"
  occupancyPercentage :: "int option"

definition newSession :: "api_theatre \<Rightarrow> api_movie \<Rightarrow> api_experience \<Rightarrow> api_session \<Rightarrow> session" where
  \<comment> \<open>the object literal pushed on \<^verbatim>\<open>allSessions\<close>: it has no occupancy field\<close>
  "newSession theatreData movie experience s =
     \<lparr>movieId = id' movie,
      movieName = api_movie.name movie,
      posterUrl = (if mediumPosterImageUrl movie \<noteq> [] then mediumPosterImageUrl movie
                   else smallPosterImageUrl movie),
      runtime = runtimeInMinutes movie,
      session.presentationType = api_movie.presentationType movie,
      session.theatreId = api_theatre.theatreId theatreData,
      session.theatreName = api_theatre.theatre theatreData,
      session.showStartDateTime = api_session.showStartDateTime s,
      session.seatsRemaining = api_session.seatsRemaining s,
      session.isSoldOut = (api_session.isSoldOut s \<or> api_session.seatsRemaining s = 0),
      session.seatMapUrl = api_session.seatMapUrl s,
      session.auditorium = api_session.auditorium s,
      session.vistaSessionId = api_session.vistaSessionId s,
      session.experienceTypes = orEmpty (api_experience.experienceTypes experience),
      totalSeats = None, occupiedSeats = None, availableSeats = None,
      occupancyPercentage = None\<rparr>"

definition theatreSessions :: "api_theatre \<Rightarrow> session list" where
  "theatreSessions theatreData =
     concat (map (\<lambda>dateData.
       concat (map (\<lambda>movie.
         concat (map (\<lambda>experience.
           map (newSession theatreData movie experience) (orEmpty (sessions experience)))
         (orEmpty (experiences movie))))
       (orEmpty (movies dateData))))
     (orEmpty (dates theatreData)))"

definition resultSessions :: "showtime_result \<Rightarrow> session list" where
  "resultSessions result =
     (if \<not> showtime_result.success result \<or> showtimes result = None
         \<or> length (orEmpty (showtimes result)) = 0
      then []
      else concat (map theatreSessions (orEmpty (showtimes result))))"

definition collectSessions :: "showtime_result list \<Rightarrow> session list" where
  "collectSessions showtimeResults = concat (map resultSessions showtimeResults)"

subsection \<open>Step 4: seat data for the 200 earliest sessions\<close>

definition byShowStart :: "session \<Rightarrow> session \<Rightarrow> int" where
  "byShowStart a b = session.showStartDateTime a - session.showStartDateTime b"

definition sessionKey :: "session \<Rightarrow> nat \<times> nat" where
  "sessionKey s = (session.theatreId s, session.vistaSessionId s)"

text \<open>
  \<^verbatim>\<open>seatDataMap\<close> is keyed by the string \<^verbatim>\<open>`${theatreId}-${showtimeId}`\<close>. For
  two non-negative integers the string determines the pair, so the pair is the key.
\<close>

definition recordSeatData ::
  "seat_result \<Rightarrow> (nat \<times> nat \<rightharpoonup> seat_data) \<Rightarrow> (nat \<times> nat \<rightharpoonup> seat_data)" where
  "recordSeatData result m =
     (case seatData result of
        Some d \<Rightarrow> if seat_result.success result
                  then m((seat_result.theatreId result, showtimeId result) \<mapsto> d) else m
      | None \<Rightarrow> m)"

definition seatDataMap :: "seat_result list \<Rightarrow> (nat \<times> nat \<rightharpoonup> seat_data)" where
  "seatDataMap seatResults = fold recordSeatData seatResults Map.empty"

definition enrich :: "(nat \<times> nat \<rightharpoonup> seat_data) \<Rightarrow> session \<Rightarrow> session" where
  "enrich m s =
     (case m (sessionKey s) of
        None \<Rightarrow> s
      | Some d \<Rightarrow>
          s\<lparr>totalSeats := Some (seat_data.totalSeats d),
            occupiedSeats := Some (seat_data.occupiedSeats d),
            availableSeats := Some (seat_data.availableSeats d),
            occupancyPercentage := Some (seat_data.occupancyPercentage d)\<rparr>)"

definition sessionsToFetch :: "session list \<Rightarrow> session list" where
  "sessionsToFetch allSessions = take 200 (Array_sort byShowStart allSessions)"

definition enrichSessions ::
  "(nat \<Rightarrow> nat) \<Rightarrow> (nat \<Rightarrow> nat \<Rightarrow> string + seat_data) \<Rightarrow> session list \<Rightarrow>
   js_error + session list" where
  "enrichSessions sched fetchSeatAvailability allSessions =
     (case fetchSeatAvailabilityBatch sched fetchSeatAvailability
             (map sessionKey (sessionsToFetch allSessions)) 15 of
        Inl e \<Rightarrow> Inl e
      | Inr seatResults \<Rightarrow> Inr (map (enrich (seatDataMap seatResults)) allSessions))"


text \<open>
  Three notions to state what enrichment does: the seat data that a request returns, if
  any, and a session with none, or with all four, of the occupancy fields.
\<close>

definition fetched :: "(nat \<Rightarrow> nat \<Rightarrow> string + seat_data) \<Rightarrow> nat \<times> nat \<Rightarrow> seat_data option" where
  "fetched fetchSeatAvailability k =
     (case fetchSeatAvailability (fst k) (snd k) of Inl message \<Rightarrow> None | Inr d \<Rightarrow> Some d)"

definition noOccupancy :: "session \<Rightarrow> bool" where
  "noOccupancy s \<longleftrightarrow>
     totalSeats s = None \<and> occupiedSeats s = None \<and> availableSeats s = None
     \<and> occupancyPercentage s = None"

definition fullOccupancy :: "session \<Rightarrow> bool" where
  "fullOccupancy s \<longleftrightarrow>
     totalSeats s \<noteq> None \<and> occupiedSeats s \<noteq> None \<and> availableSeats s \<noteq> None
     \<and> occupancyPercentage s \<noteq> None"

subsection \<open>Step 5: groups by movie\<close>

record movie_group =
  movieId :: nat
  name :: string
  posterUrl :: string
  runtime :: nat
  presentationType :: string
  showtimes :: "session list"

definition newGroup :: "session \<Rightarrow> movie_group" where
  "newGroup s =
     \<lparr>movie_group.movieId = session.movieId s,
      movie_group.name = movieName s,
      movie_group.posterUrl = session.posterUrl s,
      movie_group.runtime = session.runtime s,
      movie_group.presentationType = session.presentationType s,
      movie_group.showtimes = []\<rparr>"

definition pushShowtime :: "nat \<Rightarrow> session \<Rightarrow> nat \<times> movie_group \<Rightarrow> nat \<times> movie_group" where
  "pushShowtime key s p =
     (if fst p = key
      then (fst p, (snd p)\<lparr>movie_group.showtimes := movie_group.showtimes (snd p) @ [s]\<rparr>)
      else p)"

definition addToGroup :: "session \<Rightarrow> (nat \<times> movie_group) list \<Rightarrow> (nat \<times> movie_group) list" where
  \<comment> \<open>\<^verbatim>\<open>movieGroups\<close> in creation order, under the key \<^verbatim>\<open>`${session.movieId}`\<close>\<close>
  "addToGroup s movieGroups =
     (let key = session.movieId s;
          created = (if map_of movieGroups key = None
                     then movieGroups @ [(key, newGroup s)] else movieGroups)
      in map (pushShowtime key s) created)"

definition groupByMovie :: "session list \<Rightarrow> (nat \<times> movie_group) list" where
  "groupByMovie allSessions = fold addToGroup allSessions []"

subsection \<open>Step 6: occupancy metrics of a movie\<close>

record ranked_movie = movie_group +
  availableCount :: nat
  averageOccupancy :: "int option"
  totalSeatsBooked :: "nat option"
  totalSeatsAvailable :: "nat option"
  earliestShowtime :: int

definition defined :: "('a \<Rightarrow> 'b option) \<Rightarrow> 'a list \<Rightarrow> 'b list" where
  \<comment> \<open>\<^verbatim>\<open>xs.filter(s => s.f !== undefined)\<close>, read through the field \<^verbatim>\<open>f\<close>\<close>
  "defined f xs = List.map_filter f xs"

definition averageOccupancyOf :: "session list \<Rightarrow> int option" where
  "averageOccupancyOf ss =
     (let sessionsWithSeatData = defined session.occupancyPercentage ss
      in if length sessionsWithSeatData > 0
         then Some (Math_round (binary64 (of_int (foldl (+) 0 sessionsWithSeatData)
                                           / of_nat (length sessionsWithSeatData))))
         else None)"

definition positive :: "nat \<Rightarrow> nat option" where
  \<comment> \<open>\<^verbatim>\<open>n > 0 ? n : undefined\<close>\<close>
  "positive n = (if n > 0 then Some n else None)"

definition totalSeatsBookedOf :: "session list \<Rightarrow> nat option" where
  "totalSeatsBookedOf ss = positive (foldl (+) 0 (defined session.occupiedSeats ss))"

definition totalSeatsAvailableOf :: "session list \<Rightarrow> nat option" where
  "totalSeatsAvailableOf ss = positive (foldl (+) 0 (defined session.totalSeats ss))"

definition earlier :: "session \<Rightarrow> session \<Rightarrow> session" where
  "earlier earliest current =
     (if session.showStartDateTime current < session.showStartDateTime earliest
      then current else earliest)"

definition earliestShowtimeOf :: "session list \<Rightarrow> js_error + session" where
  \<comment> \<open>\<^verbatim>\<open>reduce\<close> without an initial value throws a TypeError on an empty array\<close>
  "earliestShowtimeOf ss =
     (case ss of [] \<Rightarrow> Inl TypeError | first # rest \<Rightarrow> Inr (foldl earlier first rest))"

definition movieMetrics :: "movie_group \<Rightarrow> js_error + ranked_movie" where
  "movieMetrics movie =
     (case earliestShowtimeOf (movie_group.showtimes movie) of
        Inl e \<Rightarrow> Inl e
      | Inr earliest \<Rightarrow>
          Inr (movie_group.extend movie
                 (ranked_movie.fields
                    (length (filter (\<lambda>s. \<not> session.isSoldOut s) (movie_group.showtimes movie)))
                    (averageOccupancyOf (movie_group.showtimes movie))
                    (totalSeatsBookedOf (movie_group.showtimes movie))
                    (totalSeatsAvailableOf (movie_group.showtimes movie))
                    (session.showStartDateTime earliest))))"

fun mapE :: "('a \<Rightarrow> 'e + 'b) \<Rightarrow> 'a list \<Rightarrow> 'e + 'b list" where
  "mapE f [] = Inr []"
| "mapE f (x # xs) =
     (case f x of
        Inl e \<Rightarrow> Inl e
      | Inr y \<Rightarrow> (case mapE f xs of Inl e \<Rightarrow> Inl e | Inr ys \<Rightarrow> Inr (y # ys)))"

subsection \<open>Step 7: the ranking\<close>

definition compareMovies :: "ranked_movie \<Rightarrow> ranked_movie \<Rightarrow> int" where
  "compareMovies a b =
     (if averageOccupancy a \<noteq> None \<and> averageOccupancy b = None then - 1
      else if averageOccupancy a = None \<and> averageOccupancy b \<noteq> None then 1
      else case (averageOccupancy a, averageOccupancy b) of
             (Some x, Some y) \<Rightarrow>
               if x \<noteq> y then y - x else earliestShowtime a - earliestShowtime b
           | _ \<Rightarrow> earliestShowtime a - earliestShowtime b)"

definition rankMovies :: "session list \<Rightarrow> js_error + ranked_movie list" where
  "rankMovies allSessions =
     (case mapE movieMetrics (Object_values (ownProperties (groupByMovie allSessions))) of
        Inl e \<Rightarrow> Inl e
      | Inr rankedMovies \<Rightarrow> Inr (Array_sort compareMovies rankedMovies))"

subsection \<open>The whole function\<close>

datatype outcome =
  NoTheatres
| NoShowtimes
| Failed js_error
| Movies "theatre list" "ranked_movie list"

definition loadTheatresAndShowtimes ::
  "('loc \<Rightarrow> string + theatre list option) \<Rightarrow>
   (nat \<Rightarrow> string \<Rightarrow> string + api_theatre list) \<Rightarrow>
   (nat \<Rightarrow> nat \<Rightarrow> string + seat_data) \<Rightarrow>
   (nat \<Rightarrow> nat) \<Rightarrow> (nat \<Rightarrow> nat) \<Rightarrow> 'loc list \<Rightarrow> string \<Rightarrow> outcome" where
  "loadTheatresAndShowtimes fetchTheatres fetchShowtimes fetchSeatAvailability
     sched1 sched2 locations selectedDate =
     (let allTheatres = locateTheatres fetchTheatres locations
      in if length allTheatres = 0 then NoTheatres
         else (case fetchShowtimesForTheatres sched1 fetchShowtimes allTheatres selectedDate 5 of
                 Inl e \<Rightarrow> Failed e
               | Inr showtimeResults \<Rightarrow>
                   (let allSessions = collectSessions showtimeResults
                    in if length allSessions = 0 then NoShowtimes
                       else (case enrichSessions sched2 fetchSeatAvailability allSessions of
                               Inl e \<Rightarrow> Failed e
                             | Inr enriched \<Rightarrow>
                                 (case rankMovies enriched of
                                    Inl e \<Rightarrow> Failed e
                                  | Inr rankedMovies \<Rightarrow> Movies allTheatres rankedMovies)))))"

subsection \<open>Notions used to state the ranking properties\<close>

text \<open>
  The movie ids in the order in which their groups are created, the key that the comparator
  of step 7 compares (defined averages first and descending, then the earliest start), and
  what the metrics of a ranked movie are in terms of the full session list.
\<close>

definition firstSeen :: "session list \<Rightarrow> nat list" where
  "firstSeen ss = rev (remdups (rev (map session.movieId ss)))"

definition rankKey :: "ranked_movie \<Rightarrow> (nat \<times> int) \<times> int" where
  "rankKey m =
     ((case averageOccupancy m of Some x \<Rightarrow> (0, - x) | None \<Rightarrow> (1, 0)), earliestShowtime m)"

definition groupMetrics :: "session list \<Rightarrow> ranked_movie \<Rightarrow> bool" where
  "groupMetrics ss m \<longleftrightarrow>
     filter (\<lambda>s. session.movieId s = movie_group.movieId m) ss \<noteq> []
     \<and> movie_group.showtimes m = filter (\<lambda>s. session.movieId s = movie_group.movieId m) ss
     \<and> averageOccupancy m = averageOccupancyOf (movie_group.showtimes m)
     \<and> totalSeatsBooked m = totalSeatsBookedOf (movie_group.showtimes m)
     \<and> totalSeatsAvailable m = totalSeatsAvailableOf (movie_group.showtimes m)
     \<and> earliestShowtime m = Min (session.showStartDateTime ` set (movie_group.showtimes m))"

section \<open>Example inputs\<close>

text \<open>
  A session of a movie with a start time and, when it was enriched, the seat data of a
  hall of 100 seats.
\<close>

definition screening :: "nat \<Rightarrow> int \<Rightarrow> seat_data option \<Rightarrow> session" where
  "screening movie start seats =
     \<lparr>session.movieId = movie, movieName = ''M'', session.posterUrl = [],
      session.runtime = 100, session.presentationType = ''2D'',
      session.theatreId = 1, session.theatreName = ''A'',
      session.showStartDateTime = start, session.seatsRemaining = 5,
      session.isSoldOut = False, session.seatMapUrl = [], session.auditorium = ''1'',
      session.vistaSessionId = nat start, session.experienceTypes = [],
      totalSeats = map_option seat_data.totalSeats seats,
      occupiedSeats = map_option seat_data.occupiedSeats seats,
      availableSeats = map_option seat_data.availableSeats seats,
      occupancyPercentage = map_option seat_data.occupancyPercentage seats\<rparr>"

definition hall :: "nat \<Rightarrow> seat_data" where
  "hall occupied =
     \<lparr>seat_data.totalSeats = 100, seat_data.occupiedSeats = occupied,
      seat_data.availableSeats = 100 - occupied,
      seat_data.occupancyPercentage = int occupied\<rparr>"

subsection \<open>An input of 201 sessions\<close>

text \<open>
  One theatre shows one movie in 201 sessions: session \<open>i < 200\<close> starts at minute \<open>i\<close>
  and has the session id \<open>i\<close>; the last session starts after all of them and has the
  session id \<open>j\<close>. The showtimes request returns them in this order, and every seat
  request returns 5 occupied seats of 10.
\<close>

definition earlySession :: "nat \<Rightarrow> api_session" where
  "earlySession i =
     \<lparr>api_session.showStartDateTime = 60000 * int i, api_session.seatsRemaining = 5,
      api_session.isSoldOut = False, api_session.seatMapUrl = [],
      api_session.auditorium = ''1'', api_session.vistaSessionId = i\<rparr>"

definition lateSession :: "nat \<Rightarrow> api_session" where
  "lateSession j =
     \<lparr>api_session.showStartDateTime = 60000 * 500, api_session.seatsRemaining = 5,
      api_session.isSoldOut = False, api_session.seatMapUrl = [],
      api_session.auditorium = ''1'', api_session.vistaSessionId = j\<rparr>"

definition longDay :: "nat \<Rightarrow> showtime_result" where
  "longDay j =
     \<lparr>showtime_result.theatre = \<lparr>theatre.theatreId = 1, theatre.theatreName = ''A''\<rparr>,
      showtimes = Some
        [\<lparr>api_theatre.theatreId = 1, theatre = ''A'',
          dates = Some
            [\<lparr>movies = Some
               [\<lparr>id' = 7, api_movie.name = ''M'', mediumPosterImageUrl = [],
                 smallPosterImageUrl = [], runtimeInMinutes = 100,
                 api_movie.presentationType = ''2D'',
                 experiences = Some
                   [\<lparr>api_experience.experienceTypes = None,
                     sessions = Some (map earlySession [0..<200] @ [lateSession j])\<rparr>]\<rparr>]\<rparr>]\<rparr>],
      showtime_result.error = None, showtime_result.success = True\<rparr>"

definition halfFull :: "nat \<Rightarrow> nat \<Rightarrow> string + seat_data" where
  "halfFull i j =
     Inr \<lparr>seat_data.totalSeats = 10, seat_data.occupiedSeats = 5,
          seat_data.availableSeats = 5, seat_data.occupancyPercentage = 50\<rparr>"

section \<open>Properties\<close>

subsection \<open>Rounding to binary64\<close>

lemma bits_bounds:
  "0 < n \<Longrightarrow> 2 ^ (bits n - 1) \<le> n \<and> n < 2 ^ bits n"
proof (induction n rule: bits.induct)
  case (1 n)
  show ?case
  proof (cases "n div 2 = 0")
    case True
    with "1.prems" have n1: "n = 1" by presburger
    have "bits 1 = Suc (bits 0)" by (subst bits.simps) simp
    also have "bits 0 = 0" by (subst bits.simps) simp
    finally show ?thesis using n1 by simp
  next
    case False
    then have pos: "0 < n div 2" by simp
    from "1.prems" have n0: "n \<noteq> 0" by simp
    from "1.IH" [OF n0 pos]
    have lo: "2 ^ (bits (n div 2) - 1) \<le> n div 2" and hi: "n div 2 < 2 ^ bits (n div 2)"
      by simp_all
    have b: "bits n = Suc (bits (n div 2))" using n0 by (simp add: bits.simps [of n])
    have bp: "0 < bits (n div 2)" using pos by (simp add: bits.simps [of "n div 2"])
    then obtain k where k: "bits (n div 2) = Suc k" by (cases "bits (n div 2)") simp_all
    from lo k have "2 * 2 ^ k \<le> 2 * (n div 2)" by simp
    also have "\<dots> \<le> n" by simp
    finally have "2 ^ (bits n - 1) \<le> n" using b k by simp
    moreover from hi have "n < 2 * 2 ^ bits (n div 2)" by linarith
    ultimately show ?thesis using b by simp
  qed
qed

lemma bits_pos: "0 < n \<Longrightarrow> 0 < bits n"
  by (simp add: bits.simps [of n])

lemma ilog2_bounds:
  assumes "0 < x"
  shows "2 powi ilog2 x \<le> x" and "x < 2 powi (ilog2 x + 1)"
proof -
  have "2 powi ilog2 x \<le> x \<and> x < 2 powi (ilog2 x + 1)"
  proof (cases "1 \<le> x")
    case True
    define m where "m = nat \<lfloor>x\<rfloor>"
    have m1: "0 < m" using True by (simp add: m_def)
    have e: "ilog2 x = int (bits m) - 1" using True by (simp add: ilog2_def m_def)
    from bits_bounds [OF m1] have lo: "2 ^ (bits m - 1) \<le> m" and hi: "m < 2 ^ bits m" by simp_all
    obtain k where k: "bits m = Suc k" using bits_pos [OF m1] by (cases "bits m") simp_all
    have mx: "rat_of_nat m \<le> x" using True by (simp add: m_def)
    have xm: "x < rat_of_nat m + 1" using True by (simp add: m_def) linarith
    have "rat_of_nat (2 ^ k) \<le> rat_of_nat m" using lo k by (simp only: of_nat_le_iff) simp
    moreover have "rat_of_nat (2 ^ k) = 2 ^ k" by simp
    ultimately have "2 ^ k \<le> x" using mx by linarith
    then have A: "2 powi ilog2 x \<le> x" using e k by simp
    have "rat_of_nat (Suc m) \<le> rat_of_nat (2 ^ bits m)"
      using hi by (simp only: of_nat_le_iff Suc_le_eq)
    moreover have "rat_of_nat (Suc m) = rat_of_nat m + 1" "rat_of_nat (2 ^ bits m) = 2 ^ bits m"
      by simp_all
    ultimately have "x < 2 ^ bits m" using xm by linarith
    then have B: "x < 2 powi (ilog2 x + 1)" using e by simp
    from A B show ?thesis ..
  next
    case False
    define c where "c = \<lceil>1 / x\<rceil>"
    define m where "m = nat (c - 1)"
    have y1: "1 < 1 / x" using False assms by simp
    have c2: "2 \<le> c" using y1 unfolding c_def by linarith
    have m1: "0 < m" using c2 by (simp add: m_def)
    have e: "ilog2 x = - int (bits m)" using False by (simp add: ilog2_def m_def c_def)
    from bits_bounds [OF m1] have lo: "2 ^ (bits m - 1) \<le> m" and hi: "m < 2 ^ bits m" by simp_all
    obtain k where k: "bits m = Suc k" using bits_pos [OF m1] by (cases "bits m") simp_all
    have mc: "rat_of_nat m = of_int c - 1" using c2 by (simp add: m_def)
    have yc: "1 / x \<le> of_int c" unfolding c_def by (rule le_of_int_ceiling)
    have cy: "of_int c - 1 < 1 / x" unfolding c_def by linarith
    have "rat_of_nat (Suc m) \<le> rat_of_nat (2 ^ bits m)"
      using hi by (simp only: of_nat_le_iff Suc_le_eq)
    moreover have "rat_of_nat (Suc m) = rat_of_nat m + 1" "rat_of_nat (2 ^ bits m) = 2 ^ bits m"
      by simp_all
    ultimately have "1 / x \<le> 2 ^ bits m" using yc mc by linarith
    then have "1 \<le> 2 ^ bits m * x" using assms by (simp add: field_simps)
    then have "1 / 2 ^ bits m \<le> x" by (simp add: field_simps)
    then have A: "2 powi ilog2 x \<le> x" using e by (simp add: power_int_minus field_simps)
    have "rat_of_nat (2 ^ k) \<le> rat_of_nat m" using lo k by (simp only: of_nat_le_iff) simp
    moreover have "rat_of_nat (2 ^ k) = 2 ^ k" by simp
    ultimately have "2 ^ k < 1 / x" using cy mc by linarith
    then have "2 ^ k * x < 1" using assms by (simp add: field_simps)
    then have "x < 1 / 2 ^ k" by (simp add: field_simps)
    moreover have "(2::rat) powi (- int (bits m) + 1) = 2 powi (- int k)" using k by simp
    moreover have "(2::rat) powi (- int k) = 1 / 2 ^ k" by (simp add: power_int_minus field_simps)
    ultimately have B: "x < 2 powi (ilog2 x + 1)" using e by simp
    from A B show ?thesis ..
  qed
  then show "2 powi ilog2 x \<le> x" and "x < 2 powi (ilog2 x + 1)" by simp_all
qed

lemma roundTiesToEven_error: "\<bar>of_int (roundTiesToEven y) - y\<bar> \<le> 1 / 2"
proof -
  have "of_int \<lfloor>y\<rfloor> \<le> y" "y < of_int \<lfloor>y\<rfloor> + 1" by linarith+
  then show ?thesis
    by (auto simp: roundTiesToEven_def Let_def abs_le_iff)
qed

lemma roundTiesToEven_of_int: "roundTiesToEven (of_int z) = z"
  by (simp add: roundTiesToEven_def)

lemma binary64_zero: "binary64 0 = 0"
  by (simp add: binary64_def)

lemma binary64_minus: "binary64 (- x) = - binary64 x"
  by (simp add: binary64_def Let_def)

lemma binary64_pos_eq:
  assumes "0 < x"
  shows "binary64 x = of_int (roundTiesToEven (x * 2 powi (52 - ilog2 x))) / 2 powi (52 - ilog2 x)"
proof -
  have "(2::rat) powi (ilog2 x - 52) = 1 / 2 powi (52 - ilog2 x)"
    using power_int_minus [of "2::rat" "52 - ilog2 x"] by (simp add: field_simps)
  then show ?thesis using assms by (simp add: binary64_def Let_def)
qed

lemma binary64_error_pos:
  assumes "0 < x"
  shows "\<bar>binary64 x - x\<bar> \<le> x / 2 ^ 53"
proof -
  define s :: rat where "s = 2 powi (52 - ilog2 x)"
  define r where "r = roundTiesToEven (x * s)"
  have s0: "0 < s" by (simp add: s_def)
  have b: "binary64 x = of_int r / s"
    using binary64_pos_eq [OF assms] by (simp add: r_def s_def)
  have "\<bar>of_int r - x * s\<bar> \<le> 1 / 2"
    unfolding r_def by (rule roundTiesToEven_error)
  then have "\<bar>of_int r - x * s\<bar> / s \<le> (1 / 2) / s"
    using s0 by (intro divide_right_mono) simp_all
  moreover have "\<bar>of_int r - x * s\<bar> / s = \<bar>of_int r / s - x\<bar>"
  proof -
    have "of_int r / s - x = (of_int r - x * s) / s" using s0 by (simp add: field_simps)
    then show ?thesis using s0 by simp
  qed
  ultimately have e1: "\<bar>binary64 x - x\<bar> \<le> (1 / 2) / s" using b by simp
  have "s * 2 powi ilog2 x = 2 powi 52"
    unfolding s_def by (simp add: power_int_add [symmetric])
  then have "s * 2 powi ilog2 x = 2 ^ 52" by (simp add: power_int_def)
  then have "(1 / 2) / s = 2 powi ilog2 x / 2 ^ 53" using s0 by (simp add: field_simps)
  also have "\<dots> \<le> x / 2 ^ 53"
    using ilog2_bounds(1) [OF assms] by (simp add: divide_right_mono)
  finally show ?thesis using e1 by linarith
qed

lemma binary64_error: "\<bar>binary64 x - x\<bar> \<le> \<bar>x\<bar> / 2 ^ 53"
proof -
  consider "x = 0" | "0 < x" | "0 < - x" by linarith
  then show ?thesis
  proof cases
    case 1
    then show ?thesis by (simp add: binary64_zero)
  next
    case 2
    then show ?thesis using binary64_error_pos [of x] by simp
  next
    case 3
    have "\<bar>binary64 x - x\<bar> = \<bar>binary64 (- x) - (- x)\<bar>"
      by (simp add: binary64_minus)
    also have "\<dots> \<le> (- x) / 2 ^ 53" by (rule binary64_error_pos [OF 3])
    finally show ?thesis using 3 by simp
  qed
qed

lemma ilog2_less:
  assumes "0 < x" and "x < 2 ^ n"
  shows "ilog2 x < int n"
proof (rule ccontr)
  assume "\<not> ilog2 x < int n"
  then have "int n \<le> ilog2 x" by simp
  then have "(2::rat) powi int n \<le> 2 powi ilog2 x"
    by (intro power_int_increasing) simp_all
  then have "(2::rat) ^ n \<le> x" using ilog2_bounds(1) [OF assms(1)] by simp
  with assms(2) show False by simp
qed

lemma binary64_half_pos:
  assumes "0 < m" and "m < 2 ^ 53"
  shows "binary64 (of_int m / 2) = of_int m / 2"
proof -
  define x :: rat where "x = of_int m / 2"
  have x0: "0 < x" using assms(1) by (simp add: x_def)
  have "rat_of_int m < rat_of_int (2 ^ 53)" using assms(2) by (simp only: of_int_less_iff)
  then have "x < 2 ^ 52" by (simp add: x_def)
  from ilog2_less [OF x0 this] have e: "ilog2 x \<le> 51" by simp
  define k where "k = nat (51 - ilog2 x)"
  have k: "52 - ilog2 x = int k + 1" using e by (simp add: k_def)
  have "x * 2 powi (52 - ilog2 x) = x * (2 ^ k * 2)"
    unfolding k by (simp add: power_int_add)
  also have "\<dots> = of_int (m * 2 ^ k)" by (simp add: x_def)
  finally have eq: "x * 2 powi (52 - ilog2 x) = of_int (m * 2 ^ k)" .
  have "binary64 x = of_int (m * 2 ^ k) / 2 powi (52 - ilog2 x)"
    using binary64_pos_eq [OF x0] by (simp only: eq roundTiesToEven_of_int)
  also have "\<dots> = x" using eq [symmetric] by simp
  finally show ?thesis by (simp add: x_def)
qed

lemma binary64_half:
  assumes "\<bar>m\<bar> < 2 ^ 53"
  shows "binary64 (of_int m / 2) = of_int m / 2"
proof -
  consider "m = 0" | "0 < m" | "0 < - m" by linarith
  then show ?thesis
  proof cases
    case 1
    then show ?thesis by (simp add: binary64_zero)
  next
    case 2
    then show ?thesis using binary64_half_pos [of m] assms by simp
  next
    case 3
    then have "binary64 (of_int (- m) / 2) = of_int (- m) / 2"
      using binary64_half_pos [of "- m"] assms by simp
    then have "binary64 (- (of_int m / 2)) = - (of_int m / 2)" by simp
    then show ?thesis by (simp only: binary64_minus neg_equal_iff_equal)
  qed
qed

lemma Math_round_binary64_mean:
  fixes S :: int and n :: nat
  assumes n0: "0 < n" and S52: "\<bar>S\<bar> < 2 ^ 52"
  shows "Math_round (binary64 (of_int S / of_nat n)) = \<lfloor>(of_int S / of_nat n + 1 / 2 :: rat)\<rfloor>"
proof -
  define N :: rat where "N = of_int (int n)"
  define R :: rat where "R = of_int S"
  define q :: rat where "q = R / N"
  define k where "k = \<lfloor>q + 1 / 2\<rfloor>"
  define f where "f = binary64 q"
  have N0: "0 < N" using n0 by (simp add: N_def)
  have N1: "1 \<le> N" using n0 by (simp add: N_def)
  have "rat_of_int \<bar>S\<bar> < rat_of_int (2 ^ 52)" using S52 by (simp only: of_int_less_iff)
  then have R52: "\<bar>R\<bar> < 2 ^ 52" by (simp add: R_def)
  have aq: "\<bar>q\<bar> = \<bar>R\<bar> / N" using N0 by (simp add: q_def)
  have "\<bar>R\<bar> / N \<le> \<bar>R\<bar> / 1" using N1 by (intro divide_left_mono) simp_all
  then have qR: "\<bar>q\<bar> \<le> \<bar>R\<bar>" using aq by simp
  have err: "\<bar>f - q\<bar> \<le> \<bar>q\<bar> / 2 ^ 53" unfolding f_def by (rule binary64_error)
  have small: "\<bar>q\<bar> / 2 ^ 53 < 1 / (2 * N)"
  proof -
    have "\<bar>R\<bar> * 2 < 2 ^ 53" using R52 by simp
    then have "\<bar>R\<bar> * (2 * N) < 2 ^ 53 * N" using N0 by simp
    then show ?thesis using N0 unfolding aq by (simp add: field_simps)
  qed
  have h1: "of_int k \<le> q + 1 / 2" unfolding k_def by (rule of_int_floor_le)
  have h2: "q + 1 / 2 < of_int k + 1" unfolding k_def by linarith
  have qN: "q * (2 * N) = 2 * R" using N0 by (simp add: q_def)
  have up: "q + 1 / 2 + 1 / (2 * N) \<le> of_int k + 1"
  proof -
    have "(q + 1 / 2) * (2 * N) < (of_int k + 1) * (2 * N)"
      using h2 N0 by (intro mult_strict_right_mono) simp_all
    then have "2 * R + N < 2 * N * (of_int k + 1)"
      using qN by (simp add: algebra_simps)
    then have "rat_of_int (2 * S + int n) < of_int (2 * int n * (k + 1))"
      by (simp add: R_def N_def)
    then have "2 * S + int n < 2 * int n * (k + 1)" by (simp only: of_int_less_iff)
    then have "2 * S + int n + 1 \<le> 2 * int n * (k + 1)" by simp
    then have "rat_of_int (2 * S + int n + 1) \<le> of_int (2 * int n * (k + 1))"
      by (simp only: of_int_le_iff)
    then have "2 * R + N + 1 \<le> (of_int k + 1) * (2 * N)"
      by (simp add: R_def N_def mult.commute)
    then have "(2 * R + N + 1) / (2 * N) \<le> (of_int k + 1) * (2 * N) / (2 * N)"
      using N0 by (intro divide_right_mono) simp_all
    moreover have "(2 * R + N + 1) / (2 * N) = q + 1 / 2 + 1 / (2 * N)"
      using N0 by (simp add: q_def add_divide_distrib)
    moreover have "(of_int k + 1) * (2 * N) / (2 * N) = of_int k + 1" using N0 by simp
    ultimately show ?thesis by simp
  qed
  have upper: "f + 1 / 2 < of_int k + 1" using err small up by linarith
  have lower: "of_int k \<le> f + 1 / 2"
  proof (cases "q + 1 / 2 = of_int k")
    case True
    then have qm: "q = of_int (2 * k - 1) / 2" by simp
    have "\<bar>rat_of_int (2 * k - 1)\<bar> = 2 * \<bar>q\<bar>" unfolding qm by simp
    then have "rat_of_int \<bar>2 * k - 1\<bar> < rat_of_int (2 ^ 53)" using qR R52 by simp
    then have m53: "\<bar>2 * k - 1\<bar> < 2 ^ 53" by (simp only: of_int_less_iff)
    have "f = q" unfolding f_def qm by (rule binary64_half [OF m53])
    then show ?thesis using True by simp
  next
    case False
    with h1 have "of_int k < q + 1 / 2" by simp
    then have "of_int k * (2 * N) < (q + 1 / 2) * (2 * N)"
      using N0 by (intro mult_strict_right_mono) simp_all
    then have "2 * N * of_int k < 2 * R + N" using qN by (simp add: algebra_simps)
    then have "rat_of_int (2 * int n * k) < of_int (2 * S + int n)"
      by (simp add: R_def N_def)
    then have "2 * int n * k < 2 * S + int n" by (simp only: of_int_less_iff)
    then have "2 * int n * k + 1 \<le> 2 * S + int n" by simp
    then have "rat_of_int (2 * int n * k + 1) \<le> of_int (2 * S + int n)"
      by (simp only: of_int_le_iff)
    then have "2 * N * of_int k + 1 \<le> 2 * R + N" by (simp add: R_def N_def)
    then have "(2 * N * of_int k + 1) / (2 * N) \<le> (2 * R + N) / (2 * N)"
      using N0 by (intro divide_right_mono) simp_all
    moreover have "(2 * N * of_int k + 1) / (2 * N) = of_int k + 1 / (2 * N)"
      using N0 by (simp add: add_divide_distrib)
    moreover have "(2 * R + N) / (2 * N) = q + 1 / 2"
      using N0 by (simp add: q_def add_divide_distrib)
    ultimately have "of_int k + 1 / (2 * N) \<le> q + 1 / 2" by simp
    then show ?thesis using err small by linarith
  qed
  have "\<lfloor>f + 1 / 2\<rfloor> = k" using lower upper by (simp add: floor_unique)
  then show ?thesis by (simp add: Math_round_def f_def k_def q_def R_def N_def)
qed

lemma percent_nearest:
  fixes occ total :: nat
  assumes t0: "0 < total" and le: "occ \<le> total" and t32: "total < 2 ^ 32"
  shows "\<bar>rat_of_int (Math_round (binary64 (binary64 (of_nat occ / of_nat total) * 100)))
          - 100 * of_nat occ / of_nat total\<bar> \<le> 1 / 2"
proof -
  define N :: rat where "N = of_int (int total)"
  define R :: rat where "R = of_int (int occ)"
  define q :: rat where "q = R / N"
  define f1 where "f1 = binary64 q"
  define f2 where "f2 = binary64 (f1 * 100)"
  define p where "p = Math_round f2"
  define Z where "Z = 2 * int total * p - 200 * int occ"
  define u :: rat where "u = 1 / 2 ^ 53"
  have N0: "0 < N" using t0 by (simp add: N_def)
  have R0: "0 \<le> R" by (simp add: R_def)
  have q0: "0 \<le> q" using N0 R0 by (simp add: q_def)
  have q1: "q \<le> 1" using le N0 by (simp add: q_def R_def N_def)
  have "int total < 2 ^ 32" using t32 by (metis of_nat_less_iff of_nat_numeral of_nat_power)
  then have "rat_of_int (int total) < rat_of_int (2 ^ 32)" by (simp only: of_int_less_iff)
  then have N32: "N < 2 ^ 32" by (simp add: N_def)
  have u0: "0 < u" and u1: "u < 1" by (simp_all add: u_def)
  have Nu: "600 * (N * u) < 1"
  proof -
    have "N * u < 2 ^ 32 * u" using N32 u0 by simp
    also have "\<dots> = 1 / 2 ^ 21" by (simp add: u_def)
    finally have "600 * (N * u) < 600 * (1 / 2 ^ 21)" by simp
    also have "\<dots> < 1" by simp
    finally show ?thesis .
  qed
  have "\<bar>f1 - q\<bar> \<le> \<bar>q\<bar> / 2 ^ 53" unfolding f1_def by (rule binary64_error)
  then have e1: "\<bar>f1 - q\<bar> \<le> q * u" using q0 by (simp add: u_def)
  have "q * u \<le> 1 * u" using q1 u0 by (intro mult_right_mono) simp_all
  then have e1': "\<bar>f1 - q\<bar> \<le> u" using e1 by simp
  have f12: "\<bar>f1\<bar> \<le> 2" using e1' q0 q1 u1 by linarith
  have "\<bar>f2 - f1 * 100\<bar> \<le> \<bar>f1 * 100\<bar> / 2 ^ 53" unfolding f2_def by (rule binary64_error)
  then have e2: "\<bar>f2 - f1 * 100\<bar> \<le> 100 * (\<bar>f1\<bar> * u)" by (simp add: u_def abs_mult)
  have "\<bar>f1\<bar> * u \<le> 2 * u" using f12 u0 by (intro mult_right_mono) simp_all
  then have e2': "\<bar>f2 - f1 * 100\<bar> \<le> 200 * u" using e2 by linarith
  have d: "\<bar>f2 - 100 * q\<bar> \<le> 300 * u" using e1' e2' by linarith
  have p1: "of_int p \<le> f2 + 1 / 2" unfolding p_def Math_round_def by (rule of_int_floor_le)
  have p2: "f2 + 1 / 2 < of_int p + 1" unfolding p_def Math_round_def by linarith
  have b: "\<bar>of_int p - 100 * q\<bar> \<le> 1 / 2 + 300 * u" using d p1 p2 by linarith
  have "2 * N * (100 * q) = 200 * R" using N0 by (simp add: q_def)
  then have Zq: "rat_of_int Z = 2 * N * (of_int p - 100 * q)"
    by (simp add: Z_def R_def N_def algebra_simps)
  have "\<bar>rat_of_int Z\<bar> = 2 * N * \<bar>of_int p - 100 * q\<bar>"
    unfolding Zq using N0 by (simp add: abs_mult)
  also have "\<dots> \<le> 2 * N * (1 / 2 + 300 * u)"
    using b N0 by (intro mult_left_mono) simp_all
  also have "\<dots> = N + 600 * (N * u)" by (simp add: algebra_simps)
  also have "\<dots> < N + 1" using Nu by simp
  finally have "\<bar>rat_of_int Z\<bar> < rat_of_int (int total + 1)" by (simp add: N_def)
  then have "rat_of_int \<bar>Z\<bar> < rat_of_int (int total + 1)" by simp
  then have "\<bar>Z\<bar> < int total + 1" by (simp only: of_int_less_iff)
  then have "\<bar>Z\<bar> \<le> int total" by simp
  then have "rat_of_int \<bar>Z\<bar> \<le> rat_of_int (int total)" by (simp only: of_int_le_iff)
  then have "\<bar>rat_of_int Z\<bar> \<le> N" by (simp add: N_def)
  then have "2 * N * \<bar>of_int p - 100 * q\<bar> \<le> N"
    unfolding Zq using N0 by (simp add: abs_mult)
  then have "\<bar>of_int p - 100 * q\<bar> \<le> 1 / 2" using N0 by simp
  then show ?thesis by (simp add: p_def f2_def f1_def q_def R_def N_def)
qed

lemma nearest_not_tie:
  fixes v :: rat and p :: int
  assumes near: "\<bar>of_int p - v\<bar> \<le> 1 / 2" and nt: "v + 1 / 2 \<notin> \<int>"
  shows "p = Math_round v"
proof -
  have "v - of_int p \<noteq> 1 / 2"
  proof
    assume "v - of_int p = 1 / 2"
    then have "v + 1 / 2 = of_int (p + 1)" by simp
    then have "v + 1 / 2 \<in> \<int>" by (simp only: Ints_of_int)
    with nt show False ..
  qed
  with near have "of_int p \<le> v + 1 / 2" and "v + 1 / 2 < of_int p + 1" by linarith+
  then have "\<lfloor>v + 1 / 2\<rfloor> = p" by (rule floor_unique)
  then show ?thesis by (simp add: Math_round_def)
qed

subsection \<open>The seat-availability handler\<close>

lemma tags_partition:
  assumes "occ \<noteq> av"
  shows "length (filter (\<lambda>s. s = occ) ts) + length (filter (\<lambda>s. s = av) ts)
     + length (filter (\<lambda>s. s \<noteq> av \<and> s \<noteq> occ) ts) = length ts"
  using assms by (induction ts) auto

lemma no_other_tags:
  "length (filter (\<lambda>s. s \<noteq> av \<and> s \<noteq> occ) ts) = 0 \<longleftrightarrow> (\<forall>t\<in>set ts. t = av \<or> t = occ)"
  by (induction ts) auto

lemma enrichedData_fields:
  "seat_data.totalSeats (enrichedData m) = length (orEmpty m)"
  "seat_data.occupiedSeats (enrichedData m)
     = length (filter (\<lambda>s. s = ''Occupied'') (map snd (orEmpty m)))"
  "seat_data.availableSeats (enrichedData m)
     = length (filter (\<lambda>s. s = ''Available'') (map snd (orEmpty m)))"
  "seat_data.occupancyPercentage (enrichedData m) =
     (if length (orEmpty m) > 0
      then Math_round (binary64 (binary64
             (of_nat (length (filter (\<lambda>s. s = ''Occupied'') (map snd (orEmpty m))))
              / of_nat (length (orEmpty m))) * 100))
      else 0)"
  by (simp_all add: enrichedData_def Let_def Object_keys_def Object_values_def)

lemma count_list_filter: "count_list xs y = length (filter (\<lambda>x. x = y) xs)"
  by (induction xs) auto

text \<open>
  C10. Occupied and available seats together never exceed the total; they make up the
  total exactly when every seat is tagged \<^verbatim>\<open>'Available'\<close> or \<^verbatim>\<open>'Occupied'\<close>; a seat with any
  other tag counts in \<open>totalSeats\<close> (the denominator of the percentage) and in neither of
  the two.
\<close>

theorem seat_counts_partition:
  "seat_data.occupiedSeats (enrichedData m) + seat_data.availableSeats (enrichedData m)
     \<le> seat_data.totalSeats (enrichedData m)
   \<and> (seat_data.occupiedSeats (enrichedData m) + seat_data.availableSeats (enrichedData m)
        = seat_data.totalSeats (enrichedData m)
      \<longleftrightarrow> (\<forall>tag \<in> set (Object_values (orEmpty m)). tag = ''Available'' \<or> tag = ''Occupied''))
   \<and> seat_data.totalSeats (enrichedData m)
       = seat_data.occupiedSeats (enrichedData m) + seat_data.availableSeats (enrichedData m)
         + length (filter (\<lambda>tag. tag \<noteq> ''Available'' \<and> tag \<noteq> ''Occupied'')
                     (Object_values (orEmpty m)))"
proof -
  define ts where "ts = map snd (orEmpty m)"
  have ne: "''Occupied'' \<noteq> ''Available''" by simp
  have p: "length (filter (\<lambda>s. s = ''Occupied'') ts) + length (filter (\<lambda>s. s = ''Available'') ts)
     + length (filter (\<lambda>s. s \<noteq> ''Available'' \<and> s \<noteq> ''Occupied'') ts) = length ts"
    by (rule tags_partition [OF ne])
  have z: "length (filter (\<lambda>s. s \<noteq> ''Available'' \<and> s \<noteq> ''Occupied'') ts) = 0
             \<longleftrightarrow> (\<forall>t\<in>set ts. t = ''Available'' \<or> t = ''Occupied'')"
    by (rule no_other_tags)
  have l: "length ts = length (orEmpty m)" by (simp add: ts_def)
  show ?thesis
    unfolding enrichedData_fields Object_values_def ts_def [symmetric]
    using p z l by linarith
qed

theorem seat_counts_partition_witness:
  "seat_data.occupiedSeats (enrichedData (Some [(''A1'', ''Occupied''), (''A2'', ''Broken''), (''A3'', ''Available'')])) = 1
   \<and> seat_data.availableSeats (enrichedData (Some [(''A1'', ''Occupied''), (''A2'', ''Broken''), (''A3'', ''Available'')])) = 1
   \<and> seat_data.totalSeats (enrichedData (Some [(''A1'', ''Occupied''), (''A2'', ''Broken''), (''A3'', ''Available'')])) = 3
   \<and> \<not> (\<forall>tag \<in> set (Object_values (orEmpty (Some [(''A1'', ''Occupied''), (''A2'', ''Broken''), (''A3'', ''Available'')]))).
           tag = ''Available'' \<or> tag = ''Occupied'')"
  using seat_counts_partition [of "Some [(''A1'', ''Occupied''), (''A2'', ''Broken''), (''A3'', ''Available'')]"]
  by (simp add: enrichedData_fields orEmpty_def Object_values_def)

text \<open>
  C6, as amended. The three counts are those of the map, an empty map gives 0 percent of
  0 seats, and for a map of fewer than \<open>2 ^ 32\<close> seats (the bound on the length of the
  array that \<^verbatim>\<open>Object.keys\<close> returns) the percentage is an integer nearest to
  \<open>occupied / total \<times> 100\<close>: it is at most one half away from the exact value, and it is
  the exact value rounded half up whenever that value is not halfway between two integers.
\<close>

theorem seat_snapshot_nearest_percentage:
  "seat_data.totalSeats (enrichedData m) = length (orEmpty m)
   \<and> seat_data.occupiedSeats (enrichedData m)
       = count_list (Object_values (orEmpty m)) ''Occupied''
   \<and> seat_data.availableSeats (enrichedData m)
       = count_list (Object_values (orEmpty m)) ''Available''
   \<and> (orEmpty m = [] \<longrightarrow>
        seat_data.occupancyPercentage (enrichedData m) = 0
        \<and> seat_data.totalSeats (enrichedData m) = 0)
   \<and> (orEmpty m \<noteq> [] \<and> length (orEmpty m) < 2 ^ 32 \<longrightarrow>
        \<bar>rat_of_int (seat_data.occupancyPercentage (enrichedData m))
           - 100 * of_nat (seat_data.occupiedSeats (enrichedData m))
             / of_nat (seat_data.totalSeats (enrichedData m))\<bar> \<le> 1 / 2
        \<and> ((100 * of_nat (seat_data.occupiedSeats (enrichedData m))
               / of_nat (seat_data.totalSeats (enrichedData m)) + 1 / 2 :: rat) \<notin> \<int> \<longrightarrow>
             seat_data.occupancyPercentage (enrichedData m)
             = Math_round (100 * of_nat (seat_data.occupiedSeats (enrichedData m))
                             / of_nat (seat_data.totalSeats (enrichedData m)))))"
proof -
  define ts where "ts = orEmpty m"
  define occ where "occ = length (filter (\<lambda>s. s = ''Occupied'') (map snd ts))"
  have near: "\<bar>rat_of_int (Math_round (binary64 (binary64 (of_nat occ / of_nat (length ts)) * 100)))
              - 100 * of_nat occ / of_nat (length ts)\<bar> \<le> 1 / 2"
    if "ts \<noteq> []" "length ts < 2 ^ 32"
  proof (rule percent_nearest)
    show "0 < length ts" using that(1) by simp
    show "occ \<le> length ts"
      unfolding occ_def using length_filter_le [of _ "map snd ts"] by simp
    show "length ts < 2 ^ 32" by (rule that(2))
  qed
  show ?thesis
    unfolding enrichedData_fields Object_values_def count_list_filter
      ts_def [symmetric] occ_def [symmetric]
    using near nearest_not_tie by auto
qed

theorem seat_snapshot_nearest_percentage_witness:
  "seat_data.totalSeats (enrichedData (Some [(''A1'', ''Occupied''), (''A2'', ''Available''),
        (''A3'', ''Occupied''), (''A4'', ''Available'')])) = 4
   \<and> seat_data.occupiedSeats (enrichedData (Some [(''A1'', ''Occupied''), (''A2'', ''Available''),
        (''A3'', ''Occupied''), (''A4'', ''Available'')])) = 2
   \<and> seat_data.availableSeats (enrichedData (Some [(''A1'', ''Occupied''), (''A2'', ''Available''),
        (''A3'', ''Occupied''), (''A4'', ''Available'')])) = 2
   \<and> seat_data.occupancyPercentage (enrichedData (Some [(''A1'', ''Occupied''), (''A2'', ''Available''),
        (''A3'', ''Occupied''), (''A4'', ''Available'')])) = 50
   \<and> seat_data.occupancyPercentage (enrichedData (Some ([] :: string seat_map))) = 0"
proof -
  let ?m = "Some [(''A1'', ''Occupied''), (''A2'', ''Available''), (''A3'', ''Occupied''), (''A4'', ''Available'')]"
  have ne: "orEmpty ?m \<noteq> [] \<and> length (orEmpty ?m) < 2 ^ 32" by (simp add: orEmpty_def)
  have c: "seat_data.totalSeats (enrichedData ?m) = 4"
    "seat_data.occupiedSeats (enrichedData ?m) = 2"
    "seat_data.availableSeats (enrichedData ?m) = 2"
    by (simp_all add: enrichedData_fields orEmpty_def)
  have nt: "(100 * of_nat (seat_data.occupiedSeats (enrichedData ?m))
               / of_nat (seat_data.totalSeats (enrichedData ?m)) + 1 / 2 :: rat) \<notin> \<int>"
  proof
    assume "(100 * of_nat (seat_data.occupiedSeats (enrichedData ?m))
               / of_nat (seat_data.totalSeats (enrichedData ?m)) + 1 / 2 :: rat) \<in> \<int>"
    then have "(101 / 2 :: rat) \<in> \<int>" unfolding c by simp
    then obtain z :: int where "(101 / 2 :: rat) = of_int z" by (auto elim: Ints_cases)
    then have "rat_of_int 101 = rat_of_int (2 * z)" by simp
    then have "101 = 2 * z" by (simp only: of_int_eq_iff)
    then show False by presburger
  qed
  have "seat_data.occupancyPercentage (enrichedData ?m)
        = Math_round (100 * of_nat (seat_data.occupiedSeats (enrichedData ?m))
                        / of_nat (seat_data.totalSeats (enrichedData ?m)))"
    using seat_snapshot_nearest_percentage [of ?m] ne nt by blast
  also have "\<dots> = 50" unfolding c Math_round_def by (rule floor_unique) simp_all
  finally have p: "seat_data.occupancyPercentage (enrichedData ?m) = 50" .
  have e: "seat_data.occupancyPercentage (enrichedData (Some ([] :: string seat_map))) = 0"
    using seat_snapshot_nearest_percentage [of "Some ([] :: string seat_map)"]
    by (simp add: orEmpty_def)
  from c p e show ?thesis by simp
qed

text \<open>
  C6 as stated fails where the exact percentage is halfway between two integers: of 40
  seats with 23 occupied, \<open>23 / 40\<close> rounds to a binary64 value just below 0.575, its
  product with 100 to one just below 57.5, and the handler answers 57, while the exact
  57.5 rounds to 58.
\<close>

theorem seat_snapshot_tie_counterexample:
  "seat_data.totalSeats (enrichedData (Some (map (\<lambda>i. (i, if i < 23 then ''Occupied'' else ''Available'')) [0..<40]))) = 40
   \<and> seat_data.occupiedSeats (enrichedData (Some (map (\<lambda>i. (i, if i < 23 then ''Occupied'' else ''Available'')) [0..<40]))) = 23
   \<and> seat_data.occupancyPercentage (enrichedData (Some (map (\<lambda>i. (i, if i < 23 then ''Occupied'' else ''Available'')) [0..<40]))) = 57
   \<and> Math_round (23 / 40 * 100) = 58"
  by code_simp

subsection \<open>The worker pool\<close>

lemma startWorkers_eq:
  "(processNext ^^ n) \<lparr>queue = items, inflight = fl, results = rs\<rparr>
   = \<lparr>queue = drop n items, inflight = fl @ take n items, results = rs\<rparr>"
proof (induction n arbitrary: items fl)
  case 0
  show ?case by simp
next
  case (Suc n)
  show ?case
  proof (cases items)
    case Nil
    have "processNext \<lparr>queue = [], inflight = fl, results = rs\<rparr>
          = \<lparr>queue = [], inflight = fl, results = rs\<rparr>"
      by (simp add: processNext_def)
    then show ?thesis using Suc.IH [of "[]" fl] Nil by (simp add: funpow_swap1)
  next
    case (Cons x xs)
    have "processNext \<lparr>queue = x # xs, inflight = fl, results = rs\<rparr>
          = \<lparr>queue = xs, inflight = fl @ [x], results = rs\<rparr>"
      by (simp add: processNext_def)
    then show ?thesis using Suc.IH [of xs "fl @ [x]"] Cons by (simp add: funpow_swap1)
  qed
qed

lemma startWorkers_fields:
  "queue (startWorkers n items :: ('a, 'r) pool) = drop n items"
  "inflight (startWorkers n items :: ('a, 'r) pool) = take n items"
  "results (startWorkers n items :: ('a, 'r) pool) = []"
  by (simp_all add: startWorkers_def startWorkers_eq)

lemma mset_remove_nth:
  assumes "i < length xs"
  shows "add_mset (xs ! i) (mset (take i xs @ drop (Suc i) xs)) = mset xs"
proof -
  have "xs = take i xs @ xs ! i # drop (Suc i) xs" using assms by (rule id_take_nth_drop)
  then have "mset xs = mset (take i xs @ xs ! i # drop (Suc i) xs)" by simp
  then show ?thesis by simp
qed

lemma processNext_results: "results (processNext p) = results p"
  by (cases "queue p") (simp_all add: processNext_def)

lemma processNext_pending:
  "mset (inflight (processNext p)) + mset (queue (processNext p))
   = mset (inflight p) + mset (queue p)"
  by (cases "queue p") (simp_all add: processNext_def)

lemma processNext_idle: "inflight (processNext p) = [] \<Longrightarrow> queue (processNext p) = []"
  by (cases "queue p") (simp_all add: processNext_def)

lemma settle_results:
  "results (settle handle i p) = results p @ [handle (inflight p ! i)]"
  by (simp add: settle_def processNext_results)

lemma settle_pending:
  assumes "i < length (inflight p)"
  shows "add_mset (inflight p ! i)
           (mset (inflight (settle handle i p)) + mset (queue (settle handle i p)))
         = mset (inflight p) + mset (queue p)"
proof -
  have "mset (inflight (settle handle i p)) + mset (queue (settle handle i p))
        = mset (take i (inflight p) @ drop (Suc i) (inflight p)) + mset (queue p)"
    unfolding settle_def by (subst processNext_pending) simp
  then show ?thesis using mset_remove_nth [OF assms] by simp
qed

lemma settle_idle: "inflight (settle handle i p) = [] \<Longrightarrow> queue (settle handle i p) = []"
  unfolding settle_def by (rule processNext_idle)

lemma awaitAll_mset:
  "(inflight p = [] \<longrightarrow> queue p = []) \<Longrightarrow>
   mset (awaitAll sched t handle p)
   = mset (results p) + image_mset handle (mset (inflight p) + mset (queue p))"
proof (induction sched t handle p rule: awaitAll.induct)
  case (1 sched t handle p)
  show ?case
  proof (cases "inflight p = []")
    case True
    with "1.prems" show ?thesis by (simp add: awaitAll.simps [of sched t handle p])
  next
    case False
    define i where "i = sched t mod length (inflight p)"
    have i: "i < length (inflight p)" using False by (simp add: i_def)
    have idle: "inflight (settle handle i p) = [] \<longrightarrow> queue (settle handle i p) = []"
      using settle_idle by blast
    have "mset (awaitAll sched t handle p) = mset (awaitAll sched (Suc t) handle (settle handle i p))"
      using False by (simp add: awaitAll.simps [of sched t handle p] i_def)
    also have "\<dots> = mset (results (settle handle i p))
        + image_mset handle (mset (inflight (settle handle i p)) + mset (queue (settle handle i p)))"
      using "1.IH" [OF False] idle unfolding i_def by blast
    also have "\<dots> = mset (results p)
        + image_mset handle (add_mset (inflight p ! i)
            (mset (inflight (settle handle i p)) + mset (queue (settle handle i p))))"
      by (simp add: settle_results)
    also have "\<dots> = mset (results p) + image_mset handle (mset (inflight p) + mset (queue p))"
      by (simp only: settle_pending [OF i])
    finally show ?thesis .
  qed
qed

lemma runBatch_negative:
  "concurrency < 0 \<Longrightarrow> runBatch sched handle items concurrency = Inl RangeError"
  by (simp add: runBatch_def Let_def min_def)

lemma runBatch_zero:
  fixes handle :: "'a \<Rightarrow> 'r"
  shows "runBatch sched handle items 0 = Inr []"
proof -
  have "awaitAll sched 0 handle (startWorkers 0 items :: ('a, 'r) pool) = []"
    by (simp add: awaitAll.simps [of sched 0 handle] startWorkers_fields)
  then show ?thesis by (simp add: runBatch_def Let_def min_def)
qed

lemma runBatch_positive:
  fixes handle :: "'a \<Rightarrow> 'r"
  assumes "1 \<le> concurrency"
  shows "\<exists>rs. runBatch sched handle items concurrency = Inr rs
              \<and> mset rs = image_mset handle (mset items)"
proof -
  define n where "n = nat (min concurrency (int (length items)))"
  define p :: "('a, 'r) pool" where "p = startWorkers n items"
  have r: "runBatch sched handle items concurrency = Inr (awaitAll sched 0 handle p)"
    using assms by (simp add: runBatch_def Let_def p_def n_def min_def)
  have "take n items = [] \<longrightarrow> drop n items = []"
    using assms by (cases items) (auto simp: n_def min_def)
  then have "inflight p = [] \<longrightarrow> queue p = []" by (simp add: p_def startWorkers_fields)
  from awaitAll_mset [OF this]
  have "mset (awaitAll sched 0 handle p) = image_mset handle (mset (take n items) + mset (drop n items))"
    by (simp add: p_def startWorkers_fields)
  also have "mset (take n items) + mset (drop n items) = mset items"
    by (metis append_take_drop_id mset_append)
  finally show ?thesis using r by blast
qed

lemma poolRun_hd: "hd (poolRun sched t handle p) = p"
  by (subst poolRun.simps) simp

lemma poolRun_last: "results (last (poolRun sched t handle p)) = awaitAll sched t handle p"
proof (induction sched t handle p rule: poolRun.induct)
  case (1 sched t handle p)
  show ?case
  proof (cases "inflight p = []")
    case True
    then show ?thesis
      by (simp add: poolRun.simps [of sched t handle p] awaitAll.simps [of sched t handle p])
  next
    case False
    define q where "q = settle handle (sched t mod length (inflight p)) p"
    have ne: "poolRun sched (Suc t) handle q \<noteq> []"
      by (subst poolRun.simps) simp
    have "results (last (poolRun sched t handle p))
          = results (last (poolRun sched (Suc t) handle q))"
      using False ne by (simp add: poolRun.simps [of sched t handle p] q_def)
    also have "\<dots> = awaitAll sched (Suc t) handle q"
      unfolding q_def by (rule "1.IH" [OF False])
    also have "\<dots> = awaitAll sched t handle p"
      using False by (simp add: awaitAll.simps [of sched t handle p] q_def)
    finally show ?thesis .
  qed
qed

lemma settle_workers:
  assumes "i < length (inflight p)"
    and "length (inflight p) \<le> n \<and> (queue p \<noteq> [] \<longrightarrow> length (inflight p) = n)"
  shows "length (inflight (settle handle i p)) \<le> n
       \<and> (queue (settle handle i p) \<noteq> [] \<longrightarrow> length (inflight (settle handle i p)) = n)"
proof (cases "queue p")
  case Nil
  have "length (take i (inflight p) @ drop (Suc i) (inflight p)) \<le> length (inflight p)"
    by simp
  then show ?thesis using Nil assms(2) by (simp add: settle_def processNext_def)
next
  case (Cons x xs)
  have "length (take i (inflight p) @ drop (Suc i) (inflight p)) + 1 = length (inflight p)"
    using assms(1) by simp
  then show ?thesis using Cons assms(2) by (simp add: settle_def processNext_def)
qed

lemma poolRun_workers:
  "length (inflight p) \<le> n \<and> (queue p \<noteq> [] \<longrightarrow> length (inflight p) = n) \<Longrightarrow>
   \<forall>q \<in> set (poolRun sched t handle p).
     length (inflight q) \<le> n \<and> (queue q \<noteq> [] \<longrightarrow> length (inflight q) = n)"
proof (induction sched t handle p rule: poolRun.induct)
  case (1 sched t handle p)
  show ?case
  proof (cases "inflight p = []")
    case True
    then show ?thesis using "1.prems" by (simp add: poolRun.simps [of sched t handle p])
  next
    case False
    define i where "i = sched t mod length (inflight p)"
    have i: "i < length (inflight p)" using False by (simp add: i_def)
    have "\<forall>q \<in> set (poolRun sched (Suc t) handle (settle handle i p)).
            length (inflight q) \<le> n \<and> (queue q \<noteq> [] \<longrightarrow> length (inflight q) = n)"
      unfolding i_def
      by (rule "1.IH" [OF False]) (use settle_workers [OF i "1.prems"] in \<open>simp add: i_def\<close>)
    moreover have "poolRun sched t handle p
        = p # poolRun sched (Suc t) handle (settle handle i p)"
      using False by (subst poolRun.simps) (simp add: i_def)
    ultimately show ?thesis using "1.prems" by simp
  qed
qed

lemma batchRun_workers:
  fixes handle :: "'a \<Rightarrow> 'r"
  assumes "0 \<le> concurrency"
  shows "\<exists>first rest. batchRun sched handle items concurrency = Inr (first # rest)
     \<and> runBatch sched handle items concurrency = Inr (results (last (first # rest)))
     \<and> inflight first = take (nat (min concurrency (int (length items)))) items
     \<and> queue first = drop (nat (min concurrency (int (length items)))) items
     \<and> length (inflight first) = nat (min concurrency (int (length items)))
     \<and> (\<forall>p \<in> set (first # rest).
           length (inflight p) \<le> nat (min concurrency (int (length items)))
           \<and> (queue p \<noteq> [] \<longrightarrow>
                length (inflight p) = nat (min concurrency (int (length items)))))"
proof -
  define n where "n = nat (min concurrency (int (length items)))"
  define p :: "('a, 'r) pool" where "p = startWorkers n items"
  define rest where "rest = tl (poolRun sched 0 handle p)"
  have nl: "n \<le> length items" unfolding n_def by linarith
  have ne: "poolRun sched 0 handle p \<noteq> []"
    by (subst poolRun.simps) simp
  have s: "poolRun sched 0 handle p = p # rest"
    using hd_Cons_tl [OF ne] by (simp add: poolRun_hd rest_def)
  have b: "batchRun sched handle items concurrency = Inr (p # rest)"
    using assms s by (simp add: batchRun_def Let_def p_def n_def)
  have "runBatch sched handle items concurrency = Inr (awaitAll sched 0 handle p)"
    using assms by (simp add: runBatch_def Let_def p_def n_def min_def)
  then have r: "runBatch sched handle items concurrency = Inr (results (last (p # rest)))"
    by (simp only: s [symmetric] poolRun_last)
  have li: "length (inflight p) = n" using nl by (simp add: p_def startWorkers_fields)
  have inv: "length (inflight p) \<le> n \<and> (queue p \<noteq> [] \<longrightarrow> length (inflight p) = n)"
    using li by simp
  have all: "\<forall>q \<in> set (p # rest).
     length (inflight q) \<le> n \<and> (queue q \<noteq> [] \<longrightarrow> length (inflight q) = n)"
    unfolding s [symmetric] by (rule poolRun_workers [OF inv])
  have "batchRun sched handle items concurrency = Inr (p # rest)
     \<and> runBatch sched handle items concurrency = Inr (results (last (p # rest)))
     \<and> inflight p = take n items
     \<and> queue p = drop n items
     \<and> length (inflight p) = n
     \<and> (\<forall>q \<in> set (p # rest).
           length (inflight q) \<le> n \<and> (queue q \<noteq> [] \<longrightarrow> length (inflight q) = n))"
    using b r li all by (simp add: p_def startWorkers_fields)
  then show ?thesis unfolding n_def by (intro exI)
qed

lemma awaitAll_one_worker:
  "awaitAll sched t handle \<lparr>queue = q, inflight = [x], results = rs\<rparr>
   = rs @ map handle (x # q)"
proof (induction q arbitrary: x rs t)
  case Nil
  have "settle handle 0 \<lparr>queue = [], inflight = [x], results = rs\<rparr>
        = \<lparr>queue = [], inflight = [], results = rs @ [handle x]\<rparr>"
    by (simp add: settle_def processNext_def)
  then show ?case
    by (simp add: awaitAll.simps [of sched t handle "\<lparr>queue = [], inflight = [x], results = rs\<rparr>"]
        awaitAll.simps [of sched "Suc t" handle
          "\<lparr>queue = [], inflight = [], results = rs @ [handle x]\<rparr>"])
next
  case (Cons y q)
  have "settle handle 0 \<lparr>queue = y # q, inflight = [x], results = rs\<rparr>
        = \<lparr>queue = q, inflight = [y], results = rs @ [handle x]\<rparr>"
    by (simp add: settle_def processNext_def)
  then show ?case
    by (simp add: awaitAll.simps [of sched t handle "\<lparr>queue = y # q, inflight = [x], results = rs\<rparr>"]
        Cons.IH)
qed

lemma runBatch_one:
  fixes handle :: "'a \<Rightarrow> 'r"
  shows "runBatch sched handle items 1 = Inr (map handle items)"
proof (cases items)
  case Nil
  have "awaitAll sched 0 handle (startWorkers 0 [] :: ('a, 'r) pool) = []"
    by (simp add: awaitAll.simps [of sched 0 handle] startWorkers_fields)
  then show ?thesis using Nil by (simp add: runBatch_def Let_def)
next
  case (Cons x xs)
  have "(startWorkers 1 (x # xs) :: ('a, 'r) pool) = \<lparr>queue = xs, inflight = [x], results = []\<rparr>"
    by (simp add: startWorkers_def processNext_def)
  then have "awaitAll sched 0 handle (startWorkers 1 (x # xs) :: ('a, 'r) pool)
             = map handle (x # xs)"
    by (simp only: awaitAll_one_worker append_Nil)
  then show ?thesis using Cons by (simp add: runBatch_def Let_def min_def)
qed

lemma awaitAll_prefix: "\<exists>ys. awaitAll sched t handle p = results p @ ys"
proof (induction sched t handle p rule: awaitAll.induct)
  case (1 sched t handle p)
  show ?case
  proof (cases "inflight p = []")
    case True
    then show ?thesis by (simp add: awaitAll.simps [of sched t handle p])
  next
    case False
    define i where "i = sched t mod length (inflight p)"
    from "1.IH" [OF False] obtain ys where
      "awaitAll sched (Suc t) handle (settle handle i p) = results (settle handle i p) @ ys"
      unfolding i_def by (elim exE)
    then have "awaitAll sched t handle p = results p @ (handle (inflight p ! i) # ys)"
      using False by (simp add: awaitAll.simps [of sched t handle p] i_def settle_results)
    then show ?thesis by (rule exI)
  qed
qed

lemma runBatch_first:
  fixes handle :: "'a \<Rightarrow> 'r"
  assumes "1 \<le> concurrency" and "items \<noteq> []"
  shows "\<exists>rs. runBatch sched handle items concurrency
              = Inr (handle (items ! (sched 0 mod nat (min concurrency (int (length items))))) # rs)"
proof -
  define n where "n = nat (min concurrency (int (length items)))"
  define p :: "('a, 'r) pool" where "p = startWorkers n items"
  define i where "i = sched 0 mod n"
  have n: "1 \<le> n" "n \<le> length items" using assms by (cases items; simp add: n_def)+
  then have i: "i < n" by (simp add: i_def)
  have fl: "inflight p = take n items" by (simp add: p_def startWorkers_fields)
  have len: "length (inflight p) = n" using n by (simp add: fl)
  have ne: "inflight p \<noteq> []" using len n by auto
  have r: "runBatch sched handle items concurrency = Inr (awaitAll sched 0 handle p)"
    using assms by (simp add: runBatch_def Let_def p_def n_def)
  have "awaitAll sched 0 handle p = awaitAll sched (Suc 0) handle (settle handle i p)"
    using ne by (simp add: awaitAll.simps [of sched 0 handle p] i_def len)
  moreover obtain ys where
    "awaitAll sched (Suc 0) handle (settle handle i p) = results (settle handle i p) @ ys"
    using awaitAll_prefix [of sched "Suc 0" handle "settle handle i p"] by (elim exE)
  moreover have "results (settle handle i p) = [handle (items ! i)]"
    using i by (simp add: settle_results fl p_def startWorkers_fields)
  ultimately have "awaitAll sched 0 handle p = handle (items ! i) # ys" by simp
  with r have "runBatch sched handle items concurrency = Inr (handle (items ! i) # ys)" by simp
  then show ?thesis unfolding i_def n_def by (rule exI)
qed

lemma showtimesResult_tag:
  "fetchShowtimes (theatre.theatreId t) date = Inr v \<Longrightarrow>
     showtimesResult fetchShowtimes date t
     = \<lparr>showtime_result.theatre = t, showtimes = Some v,
        showtime_result.error = None, showtime_result.success = True\<rparr>"
  "fetchShowtimes (theatre.theatreId t) date = Inl e \<Longrightarrow>
     showtimesResult fetchShowtimes date t
     = \<lparr>showtime_result.theatre = t, showtimes = None,
        showtime_result.error = Some e, showtime_result.success = False\<rparr>"
  by (simp_all add: showtimesResult_def)

lemma seatResult_tag:
  "fetchSeatAvailability (fst k) (snd k) = Inr v \<Longrightarrow>
     seatResult fetchSeatAvailability k
     = \<lparr>showtimeId = snd k, seat_result.theatreId = fst k, seatData = Some v,
        seat_result.error = None, seat_result.success = True\<rparr>"
  "fetchSeatAvailability (fst k) (snd k) = Inl e \<Longrightarrow>
     seatResult fetchSeatAvailability k
     = \<lparr>showtimeId = snd k, seat_result.theatreId = fst k, seatData = None,
        seat_result.error = Some e, seat_result.success = False\<rparr>"
  by (simp_all add: seatResult_def)

text \<open>
  C3. With a concurrency limit of at least 1, each batch fetch returns, whatever the order
  in which the fetches settle, and its results are exactly one result per input item: the
  success record with the payload where the item's fetch returned, the failure record with
  the error message where it threw. A failure is a result like any other, so it stops no
  other item.
\<close>

theorem batch_fetch_one_result_per_item:
  assumes "1 \<le> concurrency"
  shows "(\<exists>rs. fetchShowtimesForTheatres sched fetchShowtimes theatres date concurrency = Inr rs
             \<and> mset rs = image_mset (showtimesResult fetchShowtimes date) (mset theatres))
       \<and> (\<exists>rs. fetchSeatAvailabilityBatch sched fetchSeatAvailability items concurrency = Inr rs
             \<and> mset rs = image_mset (seatResult fetchSeatAvailability) (mset items))
       \<and> (\<forall>t v. fetchShowtimes (theatre.theatreId t) date = Inr v \<longrightarrow>
             showtimesResult fetchShowtimes date t
             = \<lparr>showtime_result.theatre = t, showtimes = Some v,
                showtime_result.error = None, showtime_result.success = True\<rparr>)
       \<and> (\<forall>t e. fetchShowtimes (theatre.theatreId t) date = Inl e \<longrightarrow>
             showtimesResult fetchShowtimes date t
             = \<lparr>showtime_result.theatre = t, showtimes = None,
                showtime_result.error = Some e, showtime_result.success = False\<rparr>)
       \<and> (\<forall>k v. fetchSeatAvailability (fst k) (snd k) = Inr v \<longrightarrow>
             seatResult fetchSeatAvailability k
             = \<lparr>showtimeId = snd k, seat_result.theatreId = fst k, seatData = Some v,
                seat_result.error = None, seat_result.success = True\<rparr>)
       \<and> (\<forall>k e. fetchSeatAvailability (fst k) (snd k) = Inl e \<longrightarrow>
             seatResult fetchSeatAvailability k
             = \<lparr>showtimeId = snd k, seat_result.theatreId = fst k, seatData = None,
                seat_result.error = Some e, seat_result.success = False\<rparr>)"
proof (intro conjI allI impI)
  show "\<exists>rs. fetchShowtimesForTheatres sched fetchShowtimes theatres date concurrency = Inr rs
             \<and> mset rs = image_mset (showtimesResult fetchShowtimes date) (mset theatres)"
    unfolding fetchShowtimesForTheatres_def by (rule runBatch_positive [OF assms])
  show "\<exists>rs. fetchSeatAvailabilityBatch sched fetchSeatAvailability items concurrency = Inr rs
             \<and> mset rs = image_mset (seatResult fetchSeatAvailability) (mset items)"
    unfolding fetchSeatAvailabilityBatch_def by (rule runBatch_positive [OF assms])
qed (simp_all add: showtimesResult_def seatResult_def)

theorem batch_fetch_one_result_per_item_witness:
  "(\<exists>rs. fetchShowtimesForTheatres (\<lambda>t. t)
            (\<lambda>i d. if i = 2 then Inl ''HTTP 500'' else Inr [])
            [\<lparr>theatre.theatreId = 1, theatreName = ''A''\<rparr>,
             \<lparr>theatre.theatreId = 2, theatreName = ''B''\<rparr>,
             \<lparr>theatre.theatreId = 3, theatreName = ''C''\<rparr>] ''1/2/2026'' 2 = Inr rs
        \<and> mset rs =
            {#\<lparr>showtime_result.theatre = \<lparr>theatre.theatreId = 1, theatreName = ''A''\<rparr>,
               showtimes = Some [], showtime_result.error = None,
               showtime_result.success = True\<rparr>,
              \<lparr>showtime_result.theatre = \<lparr>theatre.theatreId = 2, theatreName = ''B''\<rparr>,
               showtimes = None, showtime_result.error = Some ''HTTP 500'',
               showtime_result.success = False\<rparr>,
              \<lparr>showtime_result.theatre = \<lparr>theatre.theatreId = 3, theatreName = ''C''\<rparr>,
               showtimes = Some [], showtime_result.error = None,
               showtime_result.success = True\<rparr>#})"
proof -
  have one: "(1::int) \<le> 2" by simp
  show ?thesis
    using batch_fetch_one_result_per_item [OF one, of "\<lambda>t. t"
        "\<lambda>i d. if i = 2 then Inl ''HTTP 500'' else Inr []"
        "[\<lparr>theatre.theatreId = 1, theatreName = ''A''\<rparr>,
          \<lparr>theatre.theatreId = 2, theatreName = ''B''\<rparr>,
          \<lparr>theatre.theatreId = 3, theatreName = ''C''\<rparr>]" "''1/2/2026''"]
    by (simp add: showtimesResult_def)
qed

text \<open>
  C4 as stated fails below 1: the worker count is \<^verbatim>\<open>Math.min(concurrency, length)\<close> with
  no lower bound. With a limit of 0 no worker starts and a queue of one theatre yields no
  result; with a limit of -1 \<^verbatim>\<open>Array(-1)\<close> throws.
\<close>

theorem worker_count_lower_clamp_counterexample:
  "fetchShowtimesForTheatres (\<lambda>t. 0) (\<lambda>i d. Inr [])
     [\<lparr>theatre.theatreId = 1, theatreName = ''A''\<rparr>] ''1/2/2026'' 0 = Inr []
   \<and> fetchShowtimesForTheatres (\<lambda>t. 0) (\<lambda>i d. Inr [])
     [\<lparr>theatre.theatreId = 1, theatreName = ''A''\<rparr>] ''1/2/2026'' (- 1) = Inl RangeError
   \<and> fetchSeatAvailabilityBatch (\<lambda>t. 0)
       (\<lambda>i j. Inr \<lparr>seat_data.totalSeats = 0, seat_data.occupiedSeats = 0,
                    seat_data.availableSeats = 0, seat_data.occupancyPercentage = 0\<rparr>)
       [(1, 7)] 0 = Inr []
   \<and> fetchSeatAvailabilityBatch (\<lambda>t. 0)
       (\<lambda>i j. Inr \<lparr>seat_data.totalSeats = 0, seat_data.occupiedSeats = 0,
                    seat_data.availableSeats = 0, seat_data.occupancyPercentage = 0\<rparr>)
       [(1, 7)] (- 1) = Inl RangeError"
  by (simp add: fetchShowtimesForTheatres_def fetchSeatAvailabilityBatch_def
      runBatch_zero runBatch_negative)

text \<open>
  C4, as amended. The worker count is the requested limit capped by the queue length and
  nothing else. For a limit that is not negative, the run of either batch fetch starts
  with the first \<open>min concurrency length\<close> items awaited and the others queued; in no
  state of the run are more fetches awaited, and exactly that many are awaited as long as
  the queue is not empty; the function returns the results of the last state. From a
  limit of 1 on every item yields its result, and the first result is that of the item
  number \<open>sched 0 mod min concurrency length\<close>: each of the first
  \<open>min concurrency length\<close> items can settle first, and no later one. With a limit
  of 1 the results come in queue order; a limit of 0 returns the empty result list
  whatever the queue holds; a negative limit makes the call fail with a RangeError.
\<close>

theorem worker_count_is_min:
  "(0 \<le> concurrency \<longrightarrow>
      (\<exists>first rest.
          batchRun sched (showtimesResult fetchShowtimes date) theatres concurrency
            = Inr (first # rest)
          \<and> fetchShowtimesForTheatres sched fetchShowtimes theatres date concurrency
            = Inr (results (last (first # rest)))
          \<and> inflight first = take (nat (min concurrency (int (length theatres)))) theatres
          \<and> queue first = drop (nat (min concurrency (int (length theatres)))) theatres
          \<and> length (inflight first) = nat (min concurrency (int (length theatres)))
          \<and> (\<forall>p \<in> set (first # rest).
                length (inflight p) \<le> nat (min concurrency (int (length theatres)))
                \<and> (queue p \<noteq> [] \<longrightarrow>
                     length (inflight p) = nat (min concurrency (int (length theatres))))))
      \<and> (\<exists>first rest.
          batchRun sched (seatResult fetchSeatAvailability) keys concurrency
            = Inr (first # rest)
          \<and> fetchSeatAvailabilityBatch sched fetchSeatAvailability keys concurrency
            = Inr (results (last (first # rest)))
          \<and> inflight first = take (nat (min concurrency (int (length keys)))) keys
          \<and> queue first = drop (nat (min concurrency (int (length keys)))) keys
          \<and> length (inflight first) = nat (min concurrency (int (length keys)))
          \<and> (\<forall>p \<in> set (first # rest).
                length (inflight p) \<le> nat (min concurrency (int (length keys)))
                \<and> (queue p \<noteq> [] \<longrightarrow>
                     length (inflight p) = nat (min concurrency (int (length keys)))))))
   \<and> (1 \<le> concurrency \<longrightarrow>
        (\<exists>rs. fetchShowtimesForTheatres sched fetchShowtimes theatres date concurrency = Inr rs
            \<and> mset rs = image_mset (showtimesResult fetchShowtimes date) (mset theatres))
        \<and> (\<exists>rs. fetchSeatAvailabilityBatch sched fetchSeatAvailability keys concurrency = Inr rs
            \<and> mset rs = image_mset (seatResult fetchSeatAvailability) (mset keys)))
   \<and> (1 \<le> concurrency \<longrightarrow>
        (theatres \<noteq> [] \<longrightarrow>
           (\<exists>rs. fetchShowtimesForTheatres sched fetchShowtimes theatres date concurrency
                 = Inr (showtimesResult fetchShowtimes date
                          (theatres ! (sched 0 mod nat (min concurrency (int (length theatres)))))
                        # rs)))
        \<and> (keys \<noteq> [] \<longrightarrow>
           (\<exists>rs. fetchSeatAvailabilityBatch sched fetchSeatAvailability keys concurrency
                 = Inr (seatResult fetchSeatAvailability
                          (keys ! (sched 0 mod nat (min concurrency (int (length keys)))))
                        # rs))))
   \<and> (concurrency = 1 \<longrightarrow>
        fetchShowtimesForTheatres sched fetchShowtimes theatres date concurrency
          = Inr (map (showtimesResult fetchShowtimes date) theatres)
        \<and> fetchSeatAvailabilityBatch sched fetchSeatAvailability keys concurrency
          = Inr (map (seatResult fetchSeatAvailability) keys))
   \<and> (concurrency = 0 \<longrightarrow>
        fetchShowtimesForTheatres sched fetchShowtimes theatres date concurrency = Inr []
        \<and> fetchSeatAvailabilityBatch sched fetchSeatAvailability keys concurrency = Inr [])
   \<and> (concurrency < 0 \<longrightarrow>
        fetchShowtimesForTheatres sched fetchShowtimes theatres date concurrency = Inl RangeError
        \<and> fetchSeatAvailabilityBatch sched fetchSeatAvailability keys concurrency
          = Inl RangeError)"
proof (intro conjI allI impI)
  show "\<exists>first rest.
          batchRun sched (showtimesResult fetchShowtimes date) theatres concurrency
            = Inr (first # rest)
          \<and> fetchShowtimesForTheatres sched fetchShowtimes theatres date concurrency
            = Inr (results (last (first # rest)))
          \<and> inflight first = take (nat (min concurrency (int (length theatres)))) theatres
          \<and> queue first = drop (nat (min concurrency (int (length theatres)))) theatres
          \<and> length (inflight first) = nat (min concurrency (int (length theatres)))
          \<and> (\<forall>p \<in> set (first # rest).
                length (inflight p) \<le> nat (min concurrency (int (length theatres)))
                \<and> (queue p \<noteq> [] \<longrightarrow>
                     length (inflight p) = nat (min concurrency (int (length theatres)))))"
    if "0 \<le> concurrency"
    unfolding fetchShowtimesForTheatres_def by (rule batchRun_workers [OF that])
  show "\<exists>first rest.
          batchRun sched (seatResult fetchSeatAvailability) keys concurrency
            = Inr (first # rest)
          \<and> fetchSeatAvailabilityBatch sched fetchSeatAvailability keys concurrency
            = Inr (results (last (first # rest)))
          \<and> inflight first = take (nat (min concurrency (int (length keys)))) keys
          \<and> queue first = drop (nat (min concurrency (int (length keys)))) keys
          \<and> length (inflight first) = nat (min concurrency (int (length keys)))
          \<and> (\<forall>p \<in> set (first # rest).
                length (inflight p) \<le> nat (min concurrency (int (length keys)))
                \<and> (queue p \<noteq> [] \<longrightarrow>
                     length (inflight p) = nat (min concurrency (int (length keys)))))"
    if "0 \<le> concurrency"
    unfolding fetchSeatAvailabilityBatch_def by (rule batchRun_workers [OF that])
  show "\<exists>rs. fetchShowtimesForTheatres sched fetchShowtimes theatres date concurrency = Inr rs
            \<and> mset rs = image_mset (showtimesResult fetchShowtimes date) (mset theatres)"
    if "1 \<le> concurrency"
    unfolding fetchShowtimesForTheatres_def by (rule runBatch_positive [OF that])
  show "\<exists>rs. fetchSeatAvailabilityBatch sched fetchSeatAvailability keys concurrency = Inr rs
            \<and> mset rs = image_mset (seatResult fetchSeatAvailability) (mset keys)"
    if "1 \<le> concurrency"
    unfolding fetchSeatAvailabilityBatch_def by (rule runBatch_positive [OF that])
  show "\<exists>rs. fetchShowtimesForTheatres sched fetchShowtimes theatres date concurrency
                 = Inr (showtimesResult fetchShowtimes date
                          (theatres ! (sched 0 mod nat (min concurrency (int (length theatres)))))
                        # rs)"
    if "1 \<le> concurrency" and "theatres \<noteq> []"
    unfolding fetchShowtimesForTheatres_def by (rule runBatch_first [OF that])
  show "\<exists>rs. fetchSeatAvailabilityBatch sched fetchSeatAvailability keys concurrency
                 = Inr (seatResult fetchSeatAvailability
                          (keys ! (sched 0 mod nat (min concurrency (int (length keys)))))
                        # rs)"
    if "1 \<le> concurrency" and "keys \<noteq> []"
    unfolding fetchSeatAvailabilityBatch_def by (rule runBatch_first [OF that])
qed (simp_all add: fetchShowtimesForTheatres_def fetchSeatAvailabilityBatch_def
      runBatch_zero runBatch_negative runBatch_one)

theorem worker_count_is_min_witness:
  "(\<exists>first rest.
       batchRun (\<lambda>t. t) (seatResult (\<lambda>i j. Inl ''HTTP 404'')) [(1, 7), (1, 8), (1, 9)] 2
         = Inr (first # rest)
       \<and> fetchSeatAvailabilityBatch (\<lambda>t. t) (\<lambda>i j. Inl ''HTTP 404'') [(1, 7), (1, 8), (1, 9)] 2
         = Inr (results (last (first # rest)))
       \<and> inflight first = [(1, 7), (1, 8)]
       \<and> queue first = [(1, 9)]
       \<and> (\<forall>p \<in> set (first # rest). length (inflight p) \<le> 2))
   \<and> (\<exists>rs. fetchSeatAvailabilityBatch Suc (\<lambda>i j. Inl ''HTTP 404'') [(1, 7), (1, 8), (1, 9)] 2
              = Inr (\<lparr>showtimeId = 8, seat_result.theatreId = 1, seatData = None,
                      seat_result.error = Some ''HTTP 404'', seat_result.success = False\<rparr> # rs))
   \<and> (\<exists>rs. fetchSeatAvailabilityBatch (\<lambda>t. t) (\<lambda>i j. Inl ''HTTP 404'') [(1, 7), (1, 8), (1, 9)] 2
              = Inr rs
         \<and> mset rs =
             {#\<lparr>showtimeId = 7, seat_result.theatreId = 1, seatData = None,
                seat_result.error = Some ''HTTP 404'', seat_result.success = False\<rparr>,
               \<lparr>showtimeId = 8, seat_result.theatreId = 1, seatData = None,
                seat_result.error = Some ''HTTP 404'', seat_result.success = False\<rparr>,
               \<lparr>showtimeId = 9, seat_result.theatreId = 1, seatData = None,
                seat_result.error = Some ''HTTP 404'', seat_result.success = False\<rparr>#})"
proof -
  let ?keys = "[(1, 7), (1, 8), (1, 9)] :: (nat \<times> nat) list"
  let ?fetch = "\<lambda>i j. Inl ''HTTP 404'' :: string + seat_data"
  note w = worker_count_is_min [of 2 "\<lambda>t. t" "\<lambda>i d. Inr []" "''1/2/2026''" "[]" ?fetch ?keys]
  have two: "(0::int) \<le> 2" "(1::int) \<le> 2" by simp_all
  from w [THEN conjunct1, THEN mp, OF two(1), THEN conjunct2]
  obtain first rest where
    b: "batchRun (\<lambda>t. t) (seatResult ?fetch) ?keys 2 = Inr (first # rest)"
    and r: "fetchSeatAvailabilityBatch (\<lambda>t. t) ?fetch ?keys 2
            = Inr (results (last (first # rest)))"
    and i: "inflight first = take (nat (min 2 (int (length ?keys)))) ?keys"
    and q: "queue first = drop (nat (min 2 (int (length ?keys)))) ?keys"
    and a: "\<forall>p \<in> set (first # rest).
              length (inflight p) \<le> nat (min 2 (int (length ?keys)))
              \<and> (queue p \<noteq> [] \<longrightarrow> length (inflight p) = nat (min 2 (int (length ?keys))))"
    by (elim exE conjE)
  have i': "inflight first = [(1, 7), (1, 8)]" using i by simp
  have q': "queue first = [(1, 9)]" using q by simp
  have a': "\<forall>p \<in> set (first # rest). length (inflight p) \<le> 2"
  proof
    fix p assume "p \<in> set (first # rest)"
    with a have "length (inflight p) \<le> nat (min 2 (int (length ?keys)))
        \<and> (queue p \<noteq> [] \<longrightarrow> length (inflight p) = nat (min 2 (int (length ?keys))))"
      by (rule bspec)
    then have "length (inflight p) \<le> nat (min 2 (int (length ?keys)))" by (rule conjunct1)
    then show "length (inflight p) \<le> 2" by simp
  qed
  have run: "\<exists>first rest.
       batchRun (\<lambda>t. t) (seatResult ?fetch) ?keys 2 = Inr (first # rest)
       \<and> fetchSeatAvailabilityBatch (\<lambda>t. t) ?fetch ?keys 2
         = Inr (results (last (first # rest)))
       \<and> inflight first = [(1, 7), (1, 8)]
       \<and> queue first = [(1, 9)]
       \<and> (\<forall>p \<in> set (first # rest). length (inflight p) \<le> 2)"
    by (rule exI [of _ first], rule exI [of _ rest], intro conjI) (rule b r i' q' a')+
  from w [THEN conjunct2, THEN conjunct1, THEN mp, OF two(2), THEN conjunct2]
  obtain rs where
    f: "fetchSeatAvailabilityBatch (\<lambda>t. t) ?fetch ?keys 2 = Inr rs"
    and m: "mset rs = image_mset (seatResult ?fetch) (mset ?keys)"
    by (elim exE conjE)
  have m': "mset rs =
             {#\<lparr>showtimeId = 7, seat_result.theatreId = 1, seatData = None,
                seat_result.error = Some ''HTTP 404'', seat_result.success = False\<rparr>,
               \<lparr>showtimeId = 8, seat_result.theatreId = 1, seatData = None,
                seat_result.error = Some ''HTTP 404'', seat_result.success = False\<rparr>,
               \<lparr>showtimeId = 9, seat_result.theatreId = 1, seatData = None,
                seat_result.error = Some ''HTTP 404'', seat_result.success = False\<rparr>#}"
    using m by (simp add: seatResult_def)
  have all: "\<exists>rs. fetchSeatAvailabilityBatch (\<lambda>t. t) ?fetch ?keys 2 = Inr rs
         \<and> mset rs =
             {#\<lparr>showtimeId = 7, seat_result.theatreId = 1, seatData = None,
                seat_result.error = Some ''HTTP 404'', seat_result.success = False\<rparr>,
               \<lparr>showtimeId = 8, seat_result.theatreId = 1, seatData = None,
                seat_result.error = Some ''HTTP 404'', seat_result.success = False\<rparr>,
               \<lparr>showtimeId = 9, seat_result.theatreId = 1, seatData = None,
                seat_result.error = Some ''HTTP 404'', seat_result.success = False\<rparr>#}"
    by (rule exI [of _ rs], intro conjI) (rule f m')+
  have ne: "?keys \<noteq> []" by simp
  from worker_count_is_min [of 2 Suc "\<lambda>i d. Inr []" "''1/2/2026''" "[]" ?fetch ?keys,
      THEN conjunct2, THEN conjunct2, THEN conjunct1, THEN mp, OF two(2),
      THEN conjunct2, THEN mp, OF ne]
  obtain rs' where "fetchSeatAvailabilityBatch Suc ?fetch ?keys 2
      = Inr (seatResult ?fetch (?keys ! (Suc 0 mod nat (min 2 (int (length ?keys))))) # rs')"
    by (elim exE)
  then have "fetchSeatAvailabilityBatch Suc ?fetch ?keys 2
      = Inr (\<lparr>showtimeId = 8, seat_result.theatreId = 1, seatData = None,
               seat_result.error = Some ''HTTP 404'', seat_result.success = False\<rparr> # rs')"
    by (simp add: seatResult_def)
  then have first: "\<exists>rs. fetchSeatAvailabilityBatch Suc ?fetch ?keys 2
      = Inr (\<lparr>showtimeId = 8, seat_result.theatreId = 1, seatData = None,
               seat_result.error = Some ''HTTP 404'', seat_result.success = False\<rparr> # rs)"
    by (rule exI)
  from run first all show ?thesis by (intro conjI)
qed

subsection \<open>Theatres of several areas\<close>

lemma find_append:
  "find P (xs @ ys) = (case find P xs of None \<Rightarrow> find P ys | Some x \<Rightarrow> Some x)"
  by (induction xs) auto

lemma find_None_iff': "find P xs = None \<longleftrightarrow> (\<forall>x\<in>set xs. \<not> P x)"
  by (induction xs) auto

lemma fold_addUnique:
  assumes "seen = theatre.theatreId ` set acc" and "distinct (map theatre.theatreId acc)"
  shows "distinct (map theatre.theatreId (fst (fold addUnique ts (acc, seen))))
       \<and> snd (fold addUnique ts (acc, seen))
           = theatre.theatreId ` set (fst (fold addUnique ts (acc, seen)))
       \<and> (\<forall>i. find (\<lambda>t. theatre.theatreId t = i) (fst (fold addUnique ts (acc, seen)))
                = find (\<lambda>t. theatre.theatreId t = i) (acc @ ts))"
  using assms
proof (induction ts arbitrary: acc seen)
  case Nil
  then show ?case by simp
next
  case (Cons t ts)
  show ?case
  proof (cases "theatre.theatreId t \<in> seen")
    case True
    then have step: "addUnique t (acc, seen) = (acc, seen)" by (simp add: addUnique_def)
    have "find (\<lambda>u. theatre.theatreId u = i) (acc @ t # ts)
          = find (\<lambda>u. theatre.theatreId u = i) (acc @ ts)" for i
    proof (cases "find (\<lambda>u. theatre.theatreId u = i) acc")
      case None
      then have "i \<notin> theatre.theatreId ` set acc" by (auto simp: find_None_iff')
      then have "theatre.theatreId t \<noteq> i" using True Cons.prems(1) by auto
      then show ?thesis using None by (simp add: find_append)
    next
      case (Some u)
      then show ?thesis by (simp add: find_append)
    qed
    then show ?thesis using Cons.IH [OF Cons.prems] step by simp
  next
    case False
    then have step: "addUnique t (acc, seen) = (acc @ [t], insert (theatre.theatreId t) seen)"
      by (simp add: addUnique_def)
    have a: "insert (theatre.theatreId t) seen = theatre.theatreId ` set (acc @ [t])"
      using Cons.prems(1) by auto
    have b: "distinct (map theatre.theatreId (acc @ [t]))"
      using Cons.prems False by auto
    show ?thesis using Cons.IH [OF a b] step by simp
  qed
qed

lemma locate_fold:
  "fold (\<lambda>loc st. case fetchTheatres loc of
                     Inl message \<Rightarrow> st
                   | Inr nearbyTheatres \<Rightarrow> fold addUnique (orEmpty nearbyTheatres) st)
        locations st
   = fold addUnique (returnedTheatres fetchTheatres locations) st"
proof (induction locations arbitrary: st)
  case Nil
  show ?case by (simp add: returnedTheatres_def)
next
  case (Cons loc locations)
  show ?case
    using Cons.IH by (cases "fetchTheatres loc") (simp_all add: returnedTheatres_def)
qed

text \<open>
  C9. The merged theatre list holds every theatre id that some area returned, each once,
  and the entry kept for an id is the first theatre with that id in the order in which the
  areas are processed.
\<close>

theorem merged_theatres_unique_first:
  "distinct (map theatre.theatreId (locateTheatres fetchTheatres locations))
   \<and> set (map theatre.theatreId (locateTheatres fetchTheatres locations))
       = set (map theatre.theatreId (returnedTheatres fetchTheatres locations))
   \<and> (\<forall>i. find (\<lambda>t. theatre.theatreId t = i) (locateTheatres fetchTheatres locations)
            = find (\<lambda>t. theatre.theatreId t = i) (returnedTheatres fetchTheatres locations))"
proof -
  define all where "all = returnedTheatres fetchTheatres locations"
  have l: "locateTheatres fetchTheatres locations = fst (fold addUnique all ([], {}))"
    by (simp add: locateTheatres_def locate_fold all_def)
  have f: "distinct (map theatre.theatreId (fst (fold addUnique all ([], {}))))
       \<and> snd (fold addUnique all ([], {}))
           = theatre.theatreId ` set (fst (fold addUnique all ([], {})))
       \<and> (\<forall>i. find (\<lambda>t. theatre.theatreId t = i) (fst (fold addUnique all ([], {})))
                = find (\<lambda>t. theatre.theatreId t = i) ([] @ all))"
    by (rule fold_addUnique) simp_all
  have mem: "i \<in> theatre.theatreId ` set zs \<longleftrightarrow> find (\<lambda>t. theatre.theatreId t = i) zs \<noteq> None"
    for i and zs :: "theatre list"
    by (auto simp: find_None_iff')
  have s: "theatre.theatreId ` set xs = theatre.theatreId ` set ys"
    if "\<forall>i. find (\<lambda>t. theatre.theatreId t = i) xs = find (\<lambda>t. theatre.theatreId t = i) ys"
    for xs ys :: "theatre list"
  proof (rule set_eqI)
    fix i
    show "i \<in> theatre.theatreId ` set xs \<longleftrightarrow> i \<in> theatre.theatreId ` set ys"
      unfolding mem using that by simp
  qed
  show ?thesis
    unfolding l all_def [symmetric] using f s [of "fst (fold addUnique all ([], {}))" all]
    by simp
qed

theorem merged_theatres_unique_first_witness:
  "distinct (map theatre.theatreId
      (locateTheatres
         (\<lambda>loc. if loc = ''Downtown''
                then Inr (Some [\<lparr>theatre.theatreId = 100, theatreName = ''X''\<rparr>])
                else Inr (Some [\<lparr>theatre.theatreId = 100, theatreName = ''X again''\<rparr>,
                                \<lparr>theatre.theatreId = 200, theatreName = ''Y''\<rparr>]))
         [''Downtown'', ''Midtown'']))
   \<and> find (\<lambda>t. theatre.theatreId t = 100)
      (locateTheatres
         (\<lambda>loc. if loc = ''Downtown''
                then Inr (Some [\<lparr>theatre.theatreId = 100, theatreName = ''X''\<rparr>])
                else Inr (Some [\<lparr>theatre.theatreId = 100, theatreName = ''X again''\<rparr>,
                                \<lparr>theatre.theatreId = 200, theatreName = ''Y''\<rparr>]))
         [''Downtown'', ''Midtown''])
     = Some \<lparr>theatre.theatreId = 100, theatreName = ''X''\<rparr>"
  using merged_theatres_unique_first
    [of "\<lambda>loc. if loc = ''Downtown''
                then Inr (Some [\<lparr>theatre.theatreId = 100, theatreName = ''X''\<rparr>])
                else Inr (Some [\<lparr>theatre.theatreId = 100, theatreName = ''X again''\<rparr>,
                                \<lparr>theatre.theatreId = 200, theatreName = ''Y''\<rparr>])"
        "[''Downtown'', ''Midtown'']"]
  by (simp add: returnedTheatres_def orEmpty_def)

subsection \<open>Sorting with a comparator that compares keys\<close>

lemma insertBy_insort_key:
  assumes "\<And>x y. cmp x y \<le> 0 \<longleftrightarrow> f x \<le> f y"
  shows "insertBy cmp x ys = insort_key f x ys"
  by (induction ys) (simp_all add: assms)

lemma Array_sort_sort_key:
  assumes "\<And>x y. cmp x y \<le> 0 \<longleftrightarrow> f x \<le> f y"
  shows "Array_sort cmp xs = sort_key f xs"
proof -
  have "insertBy cmp = insort_key f"
    by (intro ext) (rule insertBy_insort_key [OF assms])
  then show ?thesis by (simp add: Array_sort_def sort_key_def)
qed

lemma sessionsToFetch_sort_key:
  "sessionsToFetch allSessions = take 200 (sort_key session.showStartDateTime allSessions)"
proof -
  have "byShowStart x y \<le> 0 \<longleftrightarrow> session.showStartDateTime x \<le> session.showStartDateTime y"
    for x y
    by (simp add: byShowStart_def)
  then have "Array_sort byShowStart allSessions = sort_key session.showStartDateTime allSessions"
    by (rule Array_sort_sort_key)
  then show ?thesis by (simp only: sessionsToFetch_def)
qed

subsection \<open>Seat enrichment\<close>

lemma recordSeatData_seatResult:
  "recordSeatData (seatResult fetchSeatAvailability k) m
   = (case fetched fetchSeatAvailability k of None \<Rightarrow> m | Some d \<Rightarrow> m(k \<mapsto> d))"
  by (cases "fetchSeatAvailability (fst k) (snd k)")
     (simp_all add: recordSeatData_def seatResult_def fetched_def)

lemma fold_recordSeatData:
  "fold recordSeatData (map (seatResult fetchSeatAvailability) ks) m k
   = (if k \<in> set ks
      then (case fetched fetchSeatAvailability k of None \<Rightarrow> m k | Some d \<Rightarrow> Some d)
      else m k)"
proof (induction ks arbitrary: m)
  case Nil
  show ?case by simp
next
  case (Cons a ks)
  show ?case
    by (cases "fetched fetchSeatAvailability a"; cases "fetched fetchSeatAvailability k")
       (auto simp: Cons.IH recordSeatData_seatResult)
qed

lemma results_as_map:
  assumes "mset rs = image_mset h (mset ks)"
  shows "\<exists>ks'. mset ks' = mset ks \<and> rs = map h ks'"
  using assms
proof (induction rs arbitrary: ks)
  case Nil
  then show ?case by simp
next
  case (Cons r rs)
  from Cons.prems have "r \<in># image_mset h (mset ks)" by (metis list.set_intros(1) set_mset_mset)
  then obtain k where k: "k \<in> set ks" "r = h k" by auto
  then obtain ks1 where ks1: "mset ks = add_mset k (mset ks1)"
    by (metis in_set_conv_decomp mset.simps(2) mset_append union_mset_add_mset_right)
  with Cons.prems k have "mset rs = image_mset h (mset ks1)" by simp
  from Cons.IH [OF this] obtain ks' where "mset ks' = mset ks1" "rs = map h ks'" by blast
  then have "mset (k # ks') = mset ks \<and> r # rs = map h (k # ks')" using ks1 k by simp
  then show ?case by (rule exI [of _ "k # ks'"])
qed

lemma seatDataMap_batch:
  assumes "mset rs = image_mset (seatResult fetchSeatAvailability) (mset ks)"
  shows "seatDataMap rs k = (if k \<in> set ks then fetched fetchSeatAvailability k else None)"
proof -
  from results_as_map [OF assms] obtain ks'
    where p: "mset ks' = mset ks" and r: "rs = map (seatResult fetchSeatAvailability) ks'"
    by blast
  from p have "set ks' = set ks" by (rule mset_eq_setD)
  then show ?thesis
    unfolding seatDataMap_def r fold_recordSeatData
    by (cases "fetched fetchSeatAvailability k") simp_all
qed

lemma enrichSessions_eq:
  "\<exists>m. enrichSessions sched fetchSeatAvailability allSessions = Inr (map (enrich m) allSessions)
       \<and> (\<forall>k. m k = (if k \<in> sessionKey ` set (sessionsToFetch allSessions)
                      then fetched fetchSeatAvailability k else None))"
proof -
  have "(1::int) \<le> 15" by simp
  from runBatch_positive [OF this, of sched "seatResult fetchSeatAvailability"
      "map sessionKey (sessionsToFetch allSessions)"]
  obtain rs where rs: "fetchSeatAvailabilityBatch sched fetchSeatAvailability
        (map sessionKey (sessionsToFetch allSessions)) 15 = Inr rs"
    "mset rs = image_mset (seatResult fetchSeatAvailability)
                 (mset (map sessionKey (sessionsToFetch allSessions)))"
    unfolding fetchSeatAvailabilityBatch_def by blast
  have "enrichSessions sched fetchSeatAvailability allSessions
        = Inr (map (enrich (seatDataMap rs)) allSessions)"
    by (simp add: enrichSessions_def rs(1))
  moreover have "\<forall>k. seatDataMap rs k
      = (if k \<in> sessionKey ` set (sessionsToFetch allSessions)
         then fetched fetchSeatAvailability k else None)"
    using seatDataMap_batch [OF rs(2)] by simp
  ultimately show ?thesis by blast
qed

lemma collectSessions_fresh: "s \<in> set (collectSessions showtimeResults) \<Longrightarrow> noOccupancy s"
  by (auto simp: collectSessions_def resultSessions_def theatreSessions_def newSession_def
      noOccupancy_def split: if_splits)

lemma enrich_cases:
  "enrich m s = s \<and> m (sessionKey s) = None \<or> fullOccupancy (enrich m s) \<and> m (sessionKey s) \<noteq> None"
  by (cases "m (sessionKey s)") (simp_all add: enrich_def fullOccupancy_def)

lemma sessionsToFetch_subset: "set (sessionsToFetch allSessions) \<subseteq> set allSessions"
proof -
  have "set (take 200 (sort_key session.showStartDateTime allSessions))
        \<subseteq> set (sort_key session.showStartDateTime allSessions)"
    by (rule set_take_subset)
  then show ?thesis by (simp add: sessionsToFetch_sort_key)
qed

text \<open>
  C7. After enrichment of the sessions that the collector built, every session of the
  full list has all four occupancy fields or none of them, whatever the showtime payloads,
  the seat fetches and the order in which they settle.
\<close>

theorem occupancy_fields_all_or_none:
  "\<exists>enriched.
     enrichSessions sched fetchSeatAvailability (collectSessions showtimeResults) = Inr enriched
     \<and> length enriched = length (collectSessions showtimeResults)
     \<and> (\<forall>s \<in> set enriched. noOccupancy s \<or> fullOccupancy s)"
proof -
  define allSessions where "allSessions = collectSessions showtimeResults"
  from enrichSessions_eq [of sched fetchSeatAvailability allSessions]
  obtain m where m: "enrichSessions sched fetchSeatAvailability allSessions
                     = Inr (map (enrich m) allSessions)"
    by blast
  have "noOccupancy (enrich m s) \<or> fullOccupancy (enrich m s)" if "s \<in> set allSessions" for s
    using enrich_cases [of m s] collectSessions_fresh [of s showtimeResults] that
    by (auto simp: allSessions_def)
  then have "\<forall>s \<in> set (map (enrich m) allSessions). noOccupancy s \<or> fullOccupancy s" by auto
  then show ?thesis
    unfolding allSessions_def [symmetric] using m by simp
qed

text \<open>
  C5, as amended. The sessions to fetch are the first 200 of the full list sorted stably
  by start time (the cap is the constant 200). A session whose pair of theatre id and
  session id is not the pair of one of them ends enrichment unchanged, with no occupancy
  field; where no two sessions of the list share their pair, this is every session
  outside the 200.
\<close>

theorem only_priority_subset_enriched:
  "\<exists>enriched.
     enrichSessions sched fetchSeatAvailability (collectSessions showtimeResults) = Inr enriched
     \<and> length enriched = length (collectSessions showtimeResults)
     \<and> sessionsToFetch (collectSessions showtimeResults)
         = take 200 (sort_key session.showStartDateTime (collectSessions showtimeResults))
     \<and> (\<forall>i < length (collectSessions showtimeResults).
           sessionKey (collectSessions showtimeResults ! i)
             \<notin> sessionKey ` set (sessionsToFetch (collectSessions showtimeResults))
           \<longrightarrow> enriched ! i = collectSessions showtimeResults ! i \<and> noOccupancy (enriched ! i))
     \<and> (distinct (map sessionKey (collectSessions showtimeResults)) \<longrightarrow>
          (\<forall>i < length (collectSessions showtimeResults).
             collectSessions showtimeResults ! i
               \<notin> set (sessionsToFetch (collectSessions showtimeResults))
             \<longrightarrow> enriched ! i = collectSessions showtimeResults ! i
                 \<and> noOccupancy (enriched ! i)))"
proof -
  define allSessions where "allSessions = collectSessions showtimeResults"
  from enrichSessions_eq [of sched fetchSeatAvailability allSessions]
  obtain m where m: "enrichSessions sched fetchSeatAvailability allSessions
                     = Inr (map (enrich m) allSessions)"
    and mk: "\<And>k. m k = (if k \<in> sessionKey ` set (sessionsToFetch allSessions)
                          then fetched fetchSeatAvailability k else None)"
    by blast
  have out: "map (enrich m) allSessions ! i = allSessions ! i
             \<and> noOccupancy (map (enrich m) allSessions ! i)"
    if "i < length allSessions"
      and "sessionKey (allSessions ! i) \<notin> sessionKey ` set (sessionsToFetch allSessions)"
    for i
  proof -
    have "m (sessionKey (allSessions ! i)) = None" using that(2) by (simp add: mk)
    then have "enrich m (allSessions ! i) = allSessions ! i" by (simp add: enrich_def)
    moreover have "noOccupancy (allSessions ! i)"
      using that(1) collectSessions_fresh [of "allSessions ! i" showtimeResults]
      by (simp add: allSessions_def)
    ultimately show ?thesis using that(1) by simp
  qed
  have key: "sessionKey (allSessions ! i) \<notin> sessionKey ` set (sessionsToFetch allSessions)"
    if d: "distinct (map sessionKey allSessions)" and i: "i < length allSessions"
      and n: "allSessions ! i \<notin> set (sessionsToFetch allSessions)"
    for i
  proof
    assume "sessionKey (allSessions ! i) \<in> sessionKey ` set (sessionsToFetch allSessions)"
    then obtain s where s: "s \<in> set (sessionsToFetch allSessions)"
      and e: "sessionKey (allSessions ! i) = sessionKey s"
      by auto
    from s have "s \<in> set allSessions" using sessionsToFetch_subset by blast
    moreover have "allSessions ! i \<in> set allSessions" using i by simp
    moreover have "inj_on sessionKey (set allSessions)" using d by (simp add: distinct_map)
    ultimately have "allSessions ! i = s" using e by (simp add: inj_on_def)
    with s n show False by simp
  qed
  show ?thesis
    unfolding allSessions_def [symmetric]
  proof (intro exI conjI)
    show "enrichSessions sched fetchSeatAvailability allSessions
          = Inr (map (enrich m) allSessions)"
      by (rule m)
    show "length (map (enrich m) allSessions) = length allSessions" by simp
    show "sessionsToFetch allSessions
          = take 200 (sort_key session.showStartDateTime allSessions)"
      by (rule sessionsToFetch_sort_key)
    show "\<forall>i < length allSessions.
           sessionKey (allSessions ! i) \<notin> sessionKey ` set (sessionsToFetch allSessions)
           \<longrightarrow> map (enrich m) allSessions ! i = allSessions ! i
               \<and> noOccupancy (map (enrich m) allSessions ! i)"
      using out by blast
    show "distinct (map sessionKey allSessions) \<longrightarrow>
          (\<forall>i < length allSessions.
             allSessions ! i \<notin> set (sessionsToFetch allSessions)
             \<longrightarrow> map (enrich m) allSessions ! i = allSessions ! i
                 \<and> noOccupancy (map (enrich m) allSessions ! i))"
      using out key by blast
  qed
qed

lemma longDay_sessions:
  "\<exists>g. collectSessions [longDay j] = map g (map earlySession [0..<200] @ [lateSession j])
       \<and> (\<forall>a. session.showStartDateTime (g a) = api_session.showStartDateTime a
              \<and> sessionKey (g a) = (1, api_session.vistaSessionId a))"
proof -
  define td where "td = \<lparr>api_theatre.theatreId = 1, theatre = ''A'', dates = None\<rparr>"
  define mv where "mv = \<lparr>id' = 7, api_movie.name = ''M'', mediumPosterImageUrl = [],
                 smallPosterImageUrl = [], runtimeInMinutes = 100,
                 api_movie.presentationType = ''2D'', experiences = None\<rparr>"
  define ex where "ex = \<lparr>api_experience.experienceTypes = None, sessions = None\<rparr>"
  define g where "g = newSession
     (td\<lparr>dates := Some [\<lparr>movies = Some [mv\<lparr>experiences := Some
        [ex\<lparr>sessions := Some (map earlySession [0..<200] @ [lateSession j])\<rparr>]\<rparr>]\<rparr>]\<rparr>)
     (mv\<lparr>experiences := Some
        [ex\<lparr>sessions := Some (map earlySession [0..<200] @ [lateSession j])\<rparr>]\<rparr>)
     (ex\<lparr>sessions := Some (map earlySession [0..<200] @ [lateSession j])\<rparr>)"
  have "collectSessions [longDay j] = map g (map earlySession [0..<200] @ [lateSession j])"
    by (simp add: collectSessions_def resultSessions_def theatreSessions_def longDay_def
        orEmpty_def g_def td_def mv_def ex_def del: upt.simps map_append map_map)
  moreover have "session.showStartDateTime (g a) = api_session.showStartDateTime a
                 \<and> sessionKey (g a) = (1, api_session.vistaSessionId a)" for a
    by (simp add: g_def newSession_def sessionKey_def td_def)
  ultimately show ?thesis by blast
qed

lemma longDay_facts:
  "length (collectSessions [longDay j]) = 201
   \<and> sessionsToFetch (collectSessions [longDay j]) = take 200 (collectSessions [longDay j])
   \<and> map sessionKey (collectSessions [longDay j]) = map (Pair 1) ([0..<200] @ [j])
   \<and> session.showStartDateTime (collectSessions [longDay j] ! 200) = 60000 * 500
   \<and> (\<forall>s \<in> set (take 200 (collectSessions [longDay j])).
         session.showStartDateTime s < 60000 * 500)"
proof -
  from longDay_sessions [of j] obtain g
    where c: "collectSessions [longDay j] = map g (map earlySession [0..<200] @ [lateSession j])"
      and st: "\<And>a. session.showStartDateTime (g a) = api_session.showStartDateTime a"
      and k: "\<And>a. sessionKey (g a) = (1, api_session.vistaSessionId a)"
    by blast
  define xs where "xs = map g (map earlySession [0..<200])"
  define y where "y = g (lateSession j)"
  have all: "collectSessions [longDay j] = xs @ [y]" by (simp add: c xs_def y_def)
  have lx: "length xs = 200" by (simp add: xs_def)
  have sx: "map session.showStartDateTime xs = map (\<lambda>i. 60000 * int i) [0..<200]"
    by (simp add: xs_def st earlySession_def comp_def del: upt.simps)
  have sy: "session.showStartDateTime y = 60000 * 500" by (simp add: y_def st lateSession_def)
  have lt: "\<forall>s \<in> set xs. session.showStartDateTime s < 60000 * 500"
  proof
    fix s assume "s \<in> set xs"
    then have "session.showStartDateTime s \<in> set (map session.showStartDateTime xs)" by simp
    then obtain i where "i < 200" "session.showStartDateTime s = 60000 * int i"
      unfolding sx by auto
    then show "session.showStartDateTime s < 60000 * 500" by simp
  qed
  have "sorted (map (\<lambda>i. 60000 * int i) [0..<200])"
    by (rule sorted_map [THEN iffD2]) (simp add: sorted_wrt_iff_nth_less del: upt.simps)
  then have "sorted (map session.showStartDateTime (xs @ [y]))"
    using lt by (auto simp: sorted_append sx sy simp del: upt.simps)
  then have "sort_key session.showStartDateTime (xs @ [y]) = xs @ [y]"
    by (rule sort_key_id_if_sorted)
  then have f: "sessionsToFetch (xs @ [y]) = take 200 (xs @ [y])"
    by (simp add: sessionsToFetch_sort_key)
  have keys: "map sessionKey (xs @ [y]) = map (Pair 1) ([0..<200] @ [j])"
    by (simp add: xs_def y_def k earlySession_def lateSession_def comp_def del: upt.simps)
  show ?thesis
    unfolding all using lx f keys sy lt by (simp add: nth_append del: upt.simps)
qed

lemma longDay_length: "length (collectSessions [longDay j]) = 201"
  using longDay_facts [of j] by blast

lemma longDay_fetch:
  "sessionsToFetch (collectSessions [longDay j]) = take 200 (collectSessions [longDay j])"
  using longDay_facts [of j] by blast

lemma longDay_keys:
  "map sessionKey (collectSessions [longDay j]) = map (Pair 1) ([0..<200] @ [j])"
  using longDay_facts [of j] by blast

lemma longDay_last_outside:
  "collectSessions [longDay j] ! 200 \<notin> set (sessionsToFetch (collectSessions [longDay j]))"
proof
  assume "collectSessions [longDay j] ! 200 \<in> set (sessionsToFetch (collectSessions [longDay j]))"
  then have "collectSessions [longDay j] ! 200 \<in> set (take 200 (collectSessions [longDay j]))"
    by (simp only: longDay_fetch)
  moreover have "\<forall>s \<in> set (take 200 (collectSessions [longDay j])).
         session.showStartDateTime s < 60000 * 500"
    using longDay_facts [of j] by blast
  ultimately have "session.showStartDateTime (collectSessions [longDay j] ! 200) < 60000 * 500"
    by blast
  moreover have "session.showStartDateTime (collectSessions [longDay j] ! 200) = 60000 * 500"
    using longDay_facts [of j] by blast
  ultimately show False by simp
qed

lemma longDay_fetch_keys:
  "sessionKey ` set (sessionsToFetch (collectSessions [longDay j])) = Pair 1 ` {0..<200}"
proof -
  have "sessionKey ` set (sessionsToFetch (collectSessions [longDay j]))
        = set (take 200 (map sessionKey (collectSessions [longDay j])))"
    by (simp only: longDay_fetch take_map set_map)
  also have "\<dots> = set (take 200 (map (Pair 1) ([0..<200] @ [j])))"
    by (simp only: longDay_keys)
  also have "\<dots> = Pair 1 ` {0..<200}" by (simp add: take_map del: upt.simps)
  finally show ?thesis .
qed

lemma longDay_last_key: "sessionKey (collectSessions [longDay j] ! 200) = (1, j)"
proof -
  have "sessionKey (collectSessions [longDay j] ! 200)
        = map sessionKey (collectSessions [longDay j]) ! 200"
    by (simp add: longDay_length)
  also have "\<dots> = map (Pair 1) ([0..<200] @ [j]) ! 200" by (simp only: longDay_keys)
  also have "\<dots> = (1, j)" by (simp add: nth_append del: upt.simps)
  finally show ?thesis .
qed

text \<open>
  C5 as stated fails where a session outside the 200 shares its theatre id and session id
  with a session inside: the seat data is looked up under that pair. In the input of 201
  sessions whose last session repeats the session id 0, the last session starts after all
  others, is not among the sessions to fetch, and still receives all four fields.
\<close>

theorem priority_subset_counterexample:
  "length (collectSessions [longDay 0]) = 201
   \<and> sessionsToFetch (collectSessions [longDay 0]) = take 200 (collectSessions [longDay 0])
   \<and> collectSessions [longDay 0] ! 200 \<notin> set (sessionsToFetch (collectSessions [longDay 0]))
   \<and> (\<exists>enriched. enrichSessions (\<lambda>t. 0) halfFull (collectSessions [longDay 0]) = Inr enriched
          \<and> session.totalSeats (enriched ! 200) = Some 10
          \<and> fullOccupancy (enriched ! 200))"
proof -
  define allSessions where "allSessions = collectSessions [longDay 0]"
  from enrichSessions_eq [of "\<lambda>t. 0" halfFull allSessions]
  obtain m where m: "enrichSessions (\<lambda>t. 0) halfFull allSessions
                     = Inr (map (enrich m) allSessions)"
    and mk: "\<And>k. m k = (if k \<in> sessionKey ` set (sessionsToFetch allSessions)
                          then fetched halfFull k else None)"
    by blast
  have len: "length allSessions = 201" by (simp add: allSessions_def longDay_length)
  have "m (1, 0) = fetched halfFull (1, 0)"
    unfolding mk allSessions_def longDay_fetch_keys by simp
  then have "m (sessionKey (allSessions ! 200))
       = Some \<lparr>seat_data.totalSeats = 10, seat_data.occupiedSeats = 5,
               seat_data.availableSeats = 5, seat_data.occupancyPercentage = 50\<rparr>"
    by (simp add: allSessions_def longDay_last_key fetched_def halfFull_def)
  then have e: "session.totalSeats (enrich m (allSessions ! 200)) = Some 10
                \<and> fullOccupancy (enrich m (allSessions ! 200))"
    by (simp add: enrich_def fullOccupancy_def)
  have "map (enrich m) allSessions ! 200 = enrich m (allSessions ! 200)" using len by simp
  with e m have "\<exists>enriched. enrichSessions (\<lambda>t. 0) halfFull allSessions = Inr enriched
          \<and> session.totalSeats (enriched ! 200) = Some 10
          \<and> fullOccupancy (enriched ! 200)"
    by simp
  then show ?thesis
    using longDay_length [of 0] longDay_fetch [of 0] longDay_last_outside [of 0]
    unfolding allSessions_def by blast
qed

theorem only_priority_subset_enriched_witness:
  "distinct (map sessionKey (collectSessions [longDay 200]))
   \<and> collectSessions [longDay 200] ! 200 \<notin> set (sessionsToFetch (collectSessions [longDay 200]))
   \<and> (\<exists>enriched. enrichSessions (\<lambda>t. t) halfFull (collectSessions [longDay 200]) = Inr enriched
          \<and> length enriched = 201
          \<and> noOccupancy (enriched ! 200))"
proof -
  have "map sessionKey (collectSessions [longDay 200]) = map (Pair 1) ([0..<200] @ [200])"
    by (rule longDay_keys)
  also have "[0..<200] @ [200] = [0..<201]" by (simp del: upt.simps add: upt_Suc_append [symmetric])
  finally have "map sessionKey (collectSessions [longDay 200]) = map (Pair 1) [0..<201]" .
  then have d: "distinct (map sessionKey (collectSessions [longDay 200]))"
    by (simp add: distinct_map inj_on_def del: upt.simps)
  have len: "length (collectSessions [longDay 200]) = 201" by (rule longDay_length)
  have out: "collectSessions [longDay 200] ! 200
             \<notin> set (sessionsToFetch (collectSessions [longDay 200]))"
    by (rule longDay_last_outside)
  from only_priority_subset_enriched [of "\<lambda>t. t" halfFull "[longDay 200]"]
  obtain enriched
    where e: "enrichSessions (\<lambda>t. t) halfFull (collectSessions [longDay 200]) = Inr enriched"
      and l: "length enriched = length (collectSessions [longDay 200])"
      and i: "distinct (map sessionKey (collectSessions [longDay 200])) \<longrightarrow>
          (\<forall>i < length (collectSessions [longDay 200]).
             collectSessions [longDay 200] ! i
               \<notin> set (sessionsToFetch (collectSessions [longDay 200]))
             \<longrightarrow> enriched ! i = collectSessions [longDay 200] ! i
                 \<and> noOccupancy (enriched ! i))"
    by blast
  have "(200::nat) < length (collectSessions [longDay 200])" by (simp add: len)
  with i d out have "noOccupancy (enriched ! 200)" by blast
  with e l len d out show ?thesis by simp
qed

theorem occupancy_fields_all_or_none_witness:
  "\<exists>enriched. enrichSessions (\<lambda>t. t) halfFull (collectSessions [longDay 200]) = Inr enriched
      \<and> length enriched = 201
      \<and> (\<forall>s \<in> set enriched. noOccupancy s \<or> fullOccupancy s)"
  using occupancy_fields_all_or_none [of "\<lambda>t. t" halfFull "[longDay 200]"]
  by (simp add: longDay_length)

subsection \<open>Groups by movie\<close>

lemma groupByMovie_snoc: "groupByMovie (ss @ [s]) = addToGroup s (groupByMovie ss)"
  by (simp add: groupByMovie_def)

lemma firstSeen_snoc:
  "firstSeen (ss @ [s])
   = (if session.movieId s \<in> set (firstSeen ss) then firstSeen ss
      else firstSeen ss @ [session.movieId s])"
  by (simp add: firstSeen_def)

lemma addToGroup_new:
  assumes "session.movieId s \<notin> fst ` set gs"
  shows "addToGroup s gs
         = gs @ [(session.movieId s, (newGroup s)\<lparr>movie_group.showtimes := [s]\<rparr>)]"
proof -
  have "map_of gs (session.movieId s) = None" using assms by (simp add: map_of_eq_None_iff)
  moreover have "map (pushShowtime (session.movieId s) s) gs = gs"
    using assms by (induction gs) (auto simp: pushShowtime_def)
  ultimately show ?thesis
    by (simp add: addToGroup_def Let_def pushShowtime_def newGroup_def)
qed

lemma addToGroup_old:
  assumes "session.movieId s \<in> fst ` set gs"
  shows "addToGroup s gs = map (pushShowtime (session.movieId s) s) gs"
proof -
  have "map_of gs (session.movieId s) \<noteq> None" using assms by (simp add: map_of_eq_None_iff)
  then show ?thesis by (auto simp: addToGroup_def Let_def)
qed

lemma groupByMovie_groups:
  "map fst (groupByMovie ss) = firstSeen ss
   \<and> (\<forall>p \<in> set (groupByMovie ss).
         movie_group.movieId (snd p) = fst p
         \<and> movie_group.showtimes (snd p) = filter (\<lambda>s. session.movieId s = fst p) ss)"
proof (induction ss rule: rev_induct)
  case Nil
  show ?case by (simp add: groupByMovie_def firstSeen_def)
next
  case (snoc s ss)
  define gs where "gs = groupByMovie ss"
  from snoc have keys: "map fst gs = firstSeen ss"
    and grp: "\<And>p. p \<in> set gs \<Longrightarrow> movie_group.movieId (snd p) = fst p
         \<and> movie_group.showtimes (snd p) = filter (\<lambda>s. session.movieId s = fst p) ss"
    by (simp_all add: gs_def)
  have fs: "fst ` set gs = set (firstSeen ss)" using keys by (metis set_map)
  show ?case
  proof (cases "session.movieId s \<in> fst ` set gs")
    case True
    have a: "addToGroup s gs = map (pushShowtime (session.movieId s) s) gs"
      by (rule addToGroup_old [OF True])
    have k: "map fst (map (pushShowtime (session.movieId s) s) gs) = map fst gs"
      by (induction gs) (simp_all add: pushShowtime_def)
    have g: "movie_group.movieId (snd q) = fst q
         \<and> movie_group.showtimes (snd q) = filter (\<lambda>x. session.movieId x = fst q) (ss @ [s])"
      if "q \<in> set (map (pushShowtime (session.movieId s) s) gs)" for q
    proof -
      from that obtain p where p: "p \<in> set gs" and q: "q = pushShowtime (session.movieId s) s p"
        by auto
      show ?thesis using grp [OF p] by (auto simp: q pushShowtime_def)
    qed
    show ?thesis
      unfolding groupByMovie_snoc gs_def [symmetric] a
      using k keys g True fs by (simp add: firstSeen_snoc)
  next
    case False
    have a: "addToGroup s gs
             = gs @ [(session.movieId s, (newGroup s)\<lparr>movie_group.showtimes := [s]\<rparr>)]"
      by (rule addToGroup_new [OF False])
    have none: "filter (\<lambda>x. session.movieId x = session.movieId s) ss = []"
    proof -
      have "session.movieId s \<notin> set (map session.movieId ss)"
        using False fs by (simp add: firstSeen_def)
      then have "session.movieId x \<noteq> session.movieId s" if "x \<in> set ss" for x
        using that by (metis image_eqI set_map)
      then show ?thesis by (simp add: filter_empty_conv)
    qed
    have old: "movie_group.movieId (snd p) = fst p
         \<and> movie_group.showtimes (snd p) = filter (\<lambda>x. session.movieId x = fst p) (ss @ [s])"
      if "p \<in> set gs" for p
    proof -
      have "fst p \<noteq> session.movieId s" using that False by force
      then show ?thesis using grp [OF that] by simp
    qed
    show ?thesis
      unfolding groupByMovie_snoc gs_def [symmetric] a
      using keys old none False fs by (auto simp: firstSeen_snoc newGroup_def)
  qed
qed

subsection \<open>Enumeration order of the groups\<close>

lemma map_insort_key: "map f (insort_key f x ys) = insort (f x) (map f ys)"
  by (induction ys) simp_all

lemma map_sort_key: "map f (sort_key f xs) = sort (map f xs)"
  by (induction xs) (simp_all add: map_insort_key)

lemma ownProperties_keys:
  "map fst (ownProperties obj)
   = sort (filter isArrayIndex (map fst obj)) @ filter (\<lambda>k. \<not> isArrayIndex k) (map fst obj)"
  by (simp add: ownProperties_def map_sort_key filter_map comp_def)

lemma set_ownProperties: "set (ownProperties obj) = set obj"
  by (auto simp: ownProperties_def)

subsection \<open>Metrics of a group\<close>

lemma foldl_earlier:
  "session.showStartDateTime (foldl earlier a xs)
   = Min (session.showStartDateTime ` set (a # xs))"
proof (induction xs arbitrary: a)
  case Nil
  show ?case by simp
next
  case (Cons x xs)
  have "session.showStartDateTime (foldl earlier (earlier a x) xs)
        = Min (session.showStartDateTime ` set (earlier a x # xs))"
    by (rule Cons.IH)
  also have "\<dots> = Min (session.showStartDateTime ` set (a # x # xs))"
  proof (cases "xs = []")
    case True
    then show ?thesis by (simp add: earlier_def min_def)
  next
    case False
    then have ne: "session.showStartDateTime ` set xs \<noteq> {}" by simp
    have fin: "finite (session.showStartDateTime ` set xs)" by simp
    have "Min (insert (session.showStartDateTime (earlier a x)) (session.showStartDateTime ` set xs))
          = min (session.showStartDateTime (earlier a x)) (Min (session.showStartDateTime ` set xs))"
      by (rule Min_insert [OF fin ne])
    moreover have "Min (insert (session.showStartDateTime a)
                     (insert (session.showStartDateTime x) (session.showStartDateTime ` set xs)))
          = min (session.showStartDateTime a)
              (min (session.showStartDateTime x) (Min (session.showStartDateTime ` set xs)))"
      using fin ne by simp
    moreover have "session.showStartDateTime (earlier a x)
          = min (session.showStartDateTime a) (session.showStartDateTime x)"
      by (simp add: earlier_def min_def)
    ultimately show ?thesis by (simp add: min.assoc)
  qed
  finally show ?case by simp
qed

lemma movieMetrics_fields:
  assumes "movie_group.showtimes g \<noteq> []"
  shows "\<exists>m. movieMetrics g = Inr m
    \<and> movie_group.movieId m = movie_group.movieId g
    \<and> movie_group.showtimes m = movie_group.showtimes g
    \<and> availableCount m = length (filter (\<lambda>s. \<not> session.isSoldOut s) (movie_group.showtimes g))
    \<and> averageOccupancy m = averageOccupancyOf (movie_group.showtimes g)
    \<and> totalSeatsBooked m = totalSeatsBookedOf (movie_group.showtimes g)
    \<and> totalSeatsAvailable m = totalSeatsAvailableOf (movie_group.showtimes g)
    \<and> earliestShowtime m = Min (session.showStartDateTime ` set (movie_group.showtimes g))"
proof -
  from assms obtain a xs where ax: "movie_group.showtimes g = a # xs"
    by (cases "movie_group.showtimes g") simp_all
  have e: "earliestShowtimeOf (movie_group.showtimes g) = Inr (foldl earlier a xs)"
    by (simp add: earliestShowtimeOf_def ax)
  show ?thesis
    unfolding movieMetrics_def e
    by (simp add: movie_group.defs ranked_movie.defs foldl_earlier ax [symmetric])
qed

lemma mapE_all2:
  assumes "\<forall>x \<in> set xs. \<exists>y. f x = Inr y \<and> P x y"
  shows "\<exists>ys. mapE f xs = Inr ys \<and> list_all2 P xs ys"
  using assms
proof (induction xs)
  case Nil
  show ?case by simp
next
  case (Cons x xs)
  from Cons.prems obtain y where y: "f x = Inr y" "P x y" by auto
  from Cons.IH Cons.prems obtain ys where ys: "mapE f xs = Inr ys" "list_all2 P xs ys" by auto
  have "mapE f (x # xs) = Inr (y # ys) \<and> list_all2 P (x # xs) (y # ys)"
    using y ys by simp
  then show ?case by (rule exI [of _ "y # ys"])
qed

subsection \<open>The comparator compares rank keys\<close>

lemma compareMovies_rankKey: "compareMovies a b \<le> 0 \<longleftrightarrow> rankKey a \<le> rankKey b"
  by (cases "averageOccupancy a"; cases "averageOccupancy b")
     (auto simp: compareMovies_def rankKey_def)

lemma Array_sort_compareMovies: "Array_sort compareMovies ms = sort_key rankKey ms"
  by (rule Array_sort_sort_key) (rule compareMovies_rankKey)

subsection \<open>The ranked list\<close>

lemma list_all2_setD2:
  "list_all2 P xs ys \<Longrightarrow> y \<in> set ys \<Longrightarrow> \<exists>x \<in> set xs. P x y"
  by (induction rule: list_all2_induct) auto

lemma list_all2_map_eq:
  "list_all2 P xs ys \<Longrightarrow> (\<And>x y. P x y \<Longrightarrow> f y = g x) \<Longrightarrow> map f ys = map g xs"
  by (induction rule: list_all2_induct) auto

lemma rankMovies_char:
  "\<exists>ms. rankMovies ss = Inr (sort_key rankKey ms)
     \<and> map movie_group.movieId ms
         = sort (filter isArrayIndex (firstSeen ss)) @ filter (\<lambda>k. \<not> isArrayIndex k) (firstSeen ss)
     \<and> (\<forall>m \<in> set ms. groupMetrics ss m)"
proof -
  define props where "props = ownProperties (groupByMovie ss)"
  define P :: "movie_group \<Rightarrow> ranked_movie \<Rightarrow> bool"
    where "P = (\<lambda>g m. movie_group.movieId m = movie_group.movieId g \<and> groupMetrics ss m)"
  have grp: "movie_group.movieId (snd p) = fst p
      \<and> movie_group.showtimes (snd p) = filter (\<lambda>s. session.movieId s = fst p) ss
      \<and> filter (\<lambda>s. session.movieId s = fst p) ss \<noteq> []"
    if "p \<in> set props" for p
  proof -
    from that have p: "p \<in> set (groupByMovie ss)" by (simp add: props_def set_ownProperties)
    then have "fst p \<in> set (map fst (groupByMovie ss))" by simp
    then have "fst p \<in> set (firstSeen ss)" using groupByMovie_groups [of ss] by simp
    then have "fst p \<in> set (map session.movieId ss)" by (simp add: firstSeen_def)
    then obtain s where "s \<in> set ss" "session.movieId s = fst p" by auto
    then have "filter (\<lambda>s. session.movieId s = fst p) ss \<noteq> []"
      by (auto simp: filter_empty_conv)
    then show ?thesis using groupByMovie_groups [of ss] p by blast
  qed
  have each: "\<exists>m. movieMetrics g = Inr m \<and> P g m" if "g \<in> set (map snd props)" for g
  proof -
    from that obtain p where p: "p \<in> set props" and g: "g = snd p" by auto
    from grp [OF p] have ne: "movie_group.showtimes g \<noteq> []" by (simp add: g)
    from movieMetrics_fields [OF ne] obtain m where m: "movieMetrics g = Inr m"
      "movie_group.movieId m = movie_group.movieId g"
      "movie_group.showtimes m = movie_group.showtimes g"
      "averageOccupancy m = averageOccupancyOf (movie_group.showtimes g)"
      "totalSeatsBooked m = totalSeatsBookedOf (movie_group.showtimes g)"
      "totalSeatsAvailable m = totalSeatsAvailableOf (movie_group.showtimes g)"
      "earliestShowtime m = Min (session.showStartDateTime ` set (movie_group.showtimes g))"
      by blast
    have "P g m" unfolding P_def groupMetrics_def using m grp [OF p] by (simp add: g)
    with m(1) show ?thesis by blast
  qed
  then have "\<forall>g \<in> set (map snd props). \<exists>m. movieMetrics g = Inr m \<and> P g m" by blast
  from mapE_all2 [OF this] obtain ms
    where ms: "mapE movieMetrics (map snd props) = Inr ms"
      and all2: "list_all2 P (map snd props) ms"
    by blast
  have r: "rankMovies ss = Inr (sort_key rankKey ms)"
    using ms by (simp add: rankMovies_def props_def Array_sort_compareMovies Object_values_def)
  have "map movie_group.movieId ms = map movie_group.movieId (map snd props)"
    by (rule list_all2_map_eq [OF all2]) (simp add: P_def)
  also have "\<dots> = map fst props" using grp by simp
  also have "\<dots> = sort (filter isArrayIndex (firstSeen ss))
                    @ filter (\<lambda>k. \<not> isArrayIndex k) (firstSeen ss)"
    using groupByMovie_groups [of ss] by (simp add: props_def ownProperties_keys)
  finally have k: "map movie_group.movieId ms
    = sort (filter isArrayIndex (firstSeen ss)) @ filter (\<lambda>k. \<not> isArrayIndex k) (firstSeen ss)" .
  have "\<forall>m \<in> set ms. groupMetrics ss m"
    using list_all2_setD2 [OF all2] by (auto simp: P_def)
  with r k show ?thesis by blast
qed

lemma rankKey_eq_iff:
  "rankKey m = ((case a of Some x \<Rightarrow> (0, - x) | None \<Rightarrow> (1, 0)), e)
   \<longleftrightarrow> averageOccupancy m = a \<and> earliestShowtime m = e"
  by (cases "averageOccupancy m"; cases a) (auto simp: rankKey_def)

lemma rankKey_le:
  assumes "rankKey a \<le> rankKey b"
  shows "(averageOccupancy b \<noteq> None \<longrightarrow> averageOccupancy a \<noteq> None)
       \<and> (\<forall>x y. averageOccupancy a = Some x \<and> averageOccupancy b = Some y \<longrightarrow> y \<le> x)
       \<and> (averageOccupancy a = averageOccupancy b \<longrightarrow> earliestShowtime a \<le> earliestShowtime b)"
  using assms
  by (cases "averageOccupancy a"; cases "averageOccupancy b") (auto simp: rankKey_def)

text \<open>
  C1, as amended. The ranking returns, and in the ranked list a movie with a defined
  average occupancy precedes every movie with an undefined one, two movies with defined
  averages are in non-increasing order of the average, and two movies with the same
  average (equal values, or both undefined) are in non-decreasing order of their earliest
  start, which is the least start time among the movie's sessions. The sort is stable with
  respect to the order in which \<^verbatim>\<open>Object.values\<close> lists the groups: the movies that
  tie on both keep the relative order of the list \<open>ms\<close>, whose ids are the array-index
  ids in ascending order followed by the other ids in the order in which their groups
  were formed.
\<close>

theorem ranking_order:
  "\<exists>ms rs. rankMovies ss = Inr rs
     \<and> map movie_group.movieId ms
         = sort (filter isArrayIndex (firstSeen ss)) @ filter (\<lambda>k. \<not> isArrayIndex k) (firstSeen ss)
     \<and> mset rs = mset ms
     \<and> (\<forall>a e. filter (\<lambda>m. averageOccupancy m = a \<and> earliestShowtime m = e) rs
              = filter (\<lambda>m. averageOccupancy m = a \<and> earliestShowtime m = e) ms)
     \<and> (\<forall>i j. i < j \<and> j < length rs \<longrightarrow>
           (averageOccupancy (rs ! j) \<noteq> None \<longrightarrow> averageOccupancy (rs ! i) \<noteq> None)
         \<and> (\<forall>x y. averageOccupancy (rs ! i) = Some x \<and> averageOccupancy (rs ! j) = Some y
                \<longrightarrow> y \<le> x)
         \<and> (averageOccupancy (rs ! i) = averageOccupancy (rs ! j)
              \<longrightarrow> earliestShowtime (rs ! i) \<le> earliestShowtime (rs ! j)))
     \<and> (\<forall>m \<in> set rs.
           earliestShowtime m
           = Min (session.showStartDateTime
                    ` set (filter (\<lambda>s. session.movieId s = movie_group.movieId m) ss)))"
proof -
  from rankMovies_char [of ss] obtain ms
    where r: "rankMovies ss = Inr (sort_key rankKey ms)"
      and k: "map movie_group.movieId ms
         = sort (filter isArrayIndex (firstSeen ss)) @ filter (\<lambda>k. \<not> isArrayIndex k) (firstSeen ss)"
      and g: "\<forall>m \<in> set ms. groupMetrics ss m"
    by blast
  define rs where "rs = sort_key rankKey ms"
  have st: "filter (\<lambda>m. averageOccupancy m = a \<and> earliestShowtime m = e) rs
            = filter (\<lambda>m. averageOccupancy m = a \<and> earliestShowtime m = e) ms" for a e
    using sort_key_stable [of rankKey "((case a of Some x \<Rightarrow> (0, - x) | None \<Rightarrow> (1, 0)), e)" ms]
    by (simp only: rankKey_eq_iff rs_def)
  have "sorted (map rankKey rs)" by (simp add: rs_def)
  then have ord: "rankKey (rs ! i) \<le> rankKey (rs ! j)" if "i < j" "j < length rs" for i j
    using that sorted_nth_mono [of "map rankKey rs" i j] by simp
  have e: "earliestShowtime m
           = Min (session.showStartDateTime
                    ` set (filter (\<lambda>s. session.movieId s = movie_group.movieId m) ss))"
    if "m \<in> set rs" for m
  proof -
    from that have "groupMetrics ss m" using g by (simp add: rs_def)
    then show ?thesis by (simp add: groupMetrics_def)
  qed
  show ?thesis
  proof (intro exI conjI)
    show "rankMovies ss = Inr rs" by (simp add: r rs_def)
    show "map movie_group.movieId ms
         = sort (filter isArrayIndex (firstSeen ss)) @ filter (\<lambda>k. \<not> isArrayIndex k) (firstSeen ss)"
      by (rule k)
    show "mset rs = mset ms" by (simp add: rs_def)
    show "\<forall>a e. filter (\<lambda>m. averageOccupancy m = a \<and> earliestShowtime m = e) rs
              = filter (\<lambda>m. averageOccupancy m = a \<and> earliestShowtime m = e) ms"
      using st by blast
    show "\<forall>i j. i < j \<and> j < length rs \<longrightarrow>
           (averageOccupancy (rs ! j) \<noteq> None \<longrightarrow> averageOccupancy (rs ! i) \<noteq> None)
         \<and> (\<forall>x y. averageOccupancy (rs ! i) = Some x \<and> averageOccupancy (rs ! j) = Some y
                \<longrightarrow> y \<le> x)
         \<and> (averageOccupancy (rs ! i) = averageOccupancy (rs ! j)
              \<longrightarrow> earliestShowtime (rs ! i) \<le> earliestShowtime (rs ! j))"
      using ord rankKey_le by blast
    show "\<forall>m \<in> set rs.
           earliestShowtime m
           = Min (session.showStartDateTime
                    ` set (filter (\<lambda>s. session.movieId s = movie_group.movieId m) ss))"
      using e by blast
  qed
qed

subsection \<open>Aggregates of a group\<close>

lemma defined_Nil_iff: "defined f xs = [] \<longleftrightarrow> (\<forall>x \<in> set xs. f x = None)"
  by (induction xs) (auto simp: defined_def split: option.splits)

lemma foldl_plus: "foldl (+) a xs = a + sum_list xs" for a :: "'a::monoid_add"
  by (induction xs arbitrary: a) (simp_all add: add.assoc)

lemma sum_list_defined:
  "sum_list (defined f xs) = (\<Sum>x\<leftarrow>xs. case f x of None \<Rightarrow> 0 | Some n \<Rightarrow> n)"
  for f :: "'a \<Rightarrow> 'b::monoid_add option"
  by (induction xs) (auto simp: defined_def split: option.splits)

lemma averageOccupancyOf_None:
  "averageOccupancyOf ss = None \<longleftrightarrow> (\<forall>s \<in> set ss. session.occupancyPercentage s = None)"
  using defined_Nil_iff [of session.occupancyPercentage ss]
  by (simp add: averageOccupancyOf_def Let_def)

lemma averageOccupancyOf_Some:
  assumes "List.map_filter session.occupancyPercentage ss \<noteq> []"
    and "\<bar>sum_list (List.map_filter session.occupancyPercentage ss)\<bar> < 2 ^ 52"
  shows "averageOccupancyOf ss
         = Some (Math_round (of_int (sum_list (List.map_filter session.occupancyPercentage ss))
                             / of_nat (length (List.map_filter session.occupancyPercentage ss))))"
proof -
  define ps where "ps = List.map_filter session.occupancyPercentage ss"
  have n: "0 < length ps" using assms(1) by (simp add: ps_def)
  have "Math_round (binary64 (of_int (sum_list ps) / of_nat (length ps)))
        = \<lfloor>(of_int (sum_list ps) / of_nat (length ps) + 1 / 2 :: rat)\<rfloor>"
    using assms(2) by (intro Math_round_binary64_mean [OF n]) (simp add: ps_def)
  then show ?thesis
    using n by (simp add: averageOccupancyOf_def Let_def defined_def ps_def [symmetric]
        foldl_plus Math_round_def)
qed

lemma positive_sum:
  "positive n = (if n = 0 then None else Some n)"
  by (simp add: positive_def)

lemma totalSeatsBookedOf_sum:
  "totalSeatsBookedOf ss
   = (let booked = (\<Sum>s\<leftarrow>ss. case session.occupiedSeats s of None \<Rightarrow> 0 | Some n \<Rightarrow> n)
      in if booked = 0 then None else Some booked)"
  by (simp add: totalSeatsBookedOf_def foldl_plus sum_list_defined positive_sum Let_def)

lemma totalSeatsAvailableOf_sum:
  "totalSeatsAvailableOf ss
   = (let seats = (\<Sum>s\<leftarrow>ss. case session.totalSeats s of None \<Rightarrow> 0 | Some n \<Rightarrow> n)
      in if seats = 0 then None else Some seats)"
  by (simp add: totalSeatsAvailableOf_def foldl_plus sum_list_defined positive_sum Let_def)

lemma ranked_groupMetrics:
  "\<exists>rs. rankMovies ss = Inr rs \<and> (\<forall>m \<in> set rs. groupMetrics ss m)"
proof -
  from rankMovies_char [of ss] obtain ms
    where "rankMovies ss = Inr (sort_key rankKey ms)" "\<forall>m \<in> set ms. groupMetrics ss m"
    by blast
  then have "rankMovies ss = Inr (sort_key rankKey ms)
             \<and> (\<forall>m \<in> set (sort_key rankKey ms). groupMetrics ss m)"
    by simp
  then show ?thesis by (rule exI [of _ "sort_key rankKey ms"])
qed

text \<open>
  C2. The average occupancy of a ranked movie is undefined exactly when none of the
  movie's sessions has an occupancy percentage. Otherwise it is the mean of the
  percentages of the sessions that have one, rounded to the nearest integer (half up),
  the sessions without data being left out of both the sum and the count. The rounding is
  proved for sums below \<open>2 ^ 52\<close> in absolute value, where the division in binary64 cannot
  move the quotient across a rounding boundary.
\<close>

theorem average_occupancy_mean:
  "\<exists>rs. rankMovies ss = Inr rs
     \<and> (\<forall>m \<in> set rs.
          (averageOccupancy m = None
             \<longleftrightarrow> (\<forall>s \<in> set ss. session.movieId s = movie_group.movieId m
                    \<longrightarrow> session.occupancyPercentage s = None))
          \<and> (\<forall>ps. ps = List.map_filter session.occupancyPercentage
                          (filter (\<lambda>s. session.movieId s = movie_group.movieId m) ss)
                   \<and> ps \<noteq> [] \<and> \<bar>sum_list ps\<bar> < 2 ^ 52
               \<longrightarrow> averageOccupancy m
                   = Some (Math_round (of_int (sum_list ps) / of_nat (length ps)))))"
proof -
  from ranked_groupMetrics [of ss] obtain rs
    where r: "rankMovies ss = Inr rs" and g: "\<forall>m \<in> set rs. groupMetrics ss m"
    by blast
  have "(averageOccupancy m = None
             \<longleftrightarrow> (\<forall>s \<in> set ss. session.movieId s = movie_group.movieId m
                    \<longrightarrow> session.occupancyPercentage s = None))
          \<and> (\<forall>ps. ps = List.map_filter session.occupancyPercentage
                          (filter (\<lambda>s. session.movieId s = movie_group.movieId m) ss)
                   \<and> ps \<noteq> [] \<and> \<bar>sum_list ps\<bar> < 2 ^ 52
               \<longrightarrow> averageOccupancy m
                   = Some (Math_round (of_int (sum_list ps) / of_nat (length ps))))"
    if "m \<in> set rs" for m
  proof -
    define G where "G = filter (\<lambda>s. session.movieId s = movie_group.movieId m) ss"
    from g that have "groupMetrics ss m" by blast
    then have a: "averageOccupancy m = averageOccupancyOf G"
      by (simp add: groupMetrics_def G_def)
    have "averageOccupancy m = None
          \<longleftrightarrow> (\<forall>s \<in> set ss. session.movieId s = movie_group.movieId m
                 \<longrightarrow> session.occupancyPercentage s = None)"
      unfolding a averageOccupancyOf_None by (auto simp: G_def)
    moreover have "averageOccupancy m
                   = Some (Math_round (of_int (sum_list ps) / of_nat (length ps)))"
      if "ps = List.map_filter session.occupancyPercentage G" "ps \<noteq> []"
        "\<bar>sum_list ps\<bar> < 2 ^ 52" for ps
      unfolding a using averageOccupancyOf_Some [of G] that by simp
    ultimately show ?thesis unfolding G_def by blast
  qed
  with r show ?thesis by blast
qed

text \<open>
  C8. For a ranked movie, \<open>totalSeatsBooked\<close> is the sum of \<open>occupiedSeats\<close> and
  \<open>totalSeatsAvailable\<close> the sum of \<open>totalSeats\<close> over the movie's sessions that carry the
  field (a session without it adds nothing), and each is undefined when its sum is zero.
\<close>

theorem total_seats_sums:
  "\<exists>rs. rankMovies ss = Inr rs
     \<and> (\<forall>m \<in> set rs.
          totalSeatsBooked m
          = (let booked = (\<Sum>s\<leftarrow>filter (\<lambda>s. session.movieId s = movie_group.movieId m) ss.
                             case session.occupiedSeats s of None \<Rightarrow> 0 | Some n \<Rightarrow> n)
             in if booked = 0 then None else Some booked)
          \<and> totalSeatsAvailable m
          = (let seats = (\<Sum>s\<leftarrow>filter (\<lambda>s. session.movieId s = movie_group.movieId m) ss.
                            case session.totalSeats s of None \<Rightarrow> 0 | Some n \<Rightarrow> n)
             in if seats = 0 then None else Some seats))"
proof -
  from ranked_groupMetrics [of ss] obtain rs
    where r: "rankMovies ss = Inr rs" and g: "\<forall>m \<in> set rs. groupMetrics ss m"
    by blast
  have "totalSeatsBooked m
          = (let booked = (\<Sum>s\<leftarrow>filter (\<lambda>s. session.movieId s = movie_group.movieId m) ss.
                             case session.occupiedSeats s of None \<Rightarrow> 0 | Some n \<Rightarrow> n)
             in if booked = 0 then None else Some booked)
          \<and> totalSeatsAvailable m
          = (let seats = (\<Sum>s\<leftarrow>filter (\<lambda>s. session.movieId s = movie_group.movieId m) ss.
                            case session.totalSeats s of None \<Rightarrow> 0 | Some n \<Rightarrow> n)
             in if seats = 0 then None else Some seats)"
    if "m \<in> set rs" for m
  proof -
    from g that have "groupMetrics ss m" by blast
    then show ?thesis
      by (simp only: groupMetrics_def totalSeatsBookedOf_sum totalSeatsAvailableOf_sum)
  qed
  with r show ?thesis by blast
qed

subsection \<open>Concrete rankings\<close>

lemma binary64_of_int:
  assumes "\<bar>z\<bar> < 2 ^ 52"
  shows "binary64 (of_int z) = of_int z"
proof -
  have e: "(of_int (2 * z) / 2 :: rat) = of_int z" by simp
  have "\<bar>2 * z\<bar> < 2 ^ 53" using assms by simp
  from binary64_half [OF this] show ?thesis by (simp only: e)
qed

lemma binary64_numeral:
  "numeral k < (2::int) ^ 52 \<Longrightarrow> binary64 (numeral k) = numeral k"
  using binary64_of_int [of "numeral k"] by simp

lemma Math_round_of_int: "Math_round (of_int z) = z"
  unfolding Math_round_def by (rule floor_unique) simp_all

lemma Math_round_numeral: "Math_round (numeral k) = numeral k"
  using Math_round_of_int [of "numeral k"] by simp

lemmas ranking_eval =
  rankMovies_def groupByMovie_def addToGroup_def pushShowtime_def newGroup_def
  ownProperties_def isArrayIndex_def Object_values_def movieMetrics_def
  earliestShowtimeOf_def earlier_def averageOccupancyOf_def defined_def
  List.map_filter_def totalSeatsBookedOf_def totalSeatsAvailableOf_def positive_def
  Array_sort_def compareMovies_def movie_group.defs ranked_movie.defs Let_def
  screening_def hall_def binary64_numeral Math_round_numeral firstSeen_def

lemma two_unknown_movies:
  "map_sum (\<lambda>e. e)
     (map (\<lambda>m. (movie_group.movieId m, averageOccupancy m, earliestShowtime m)))
     (rankMovies [screening 2 600 None, screening 1 600 None])
   = Inr [(1, None, 600), (2, None, 600)]"
  by (simp add: ranking_eval)

lemma four_movies:
  "map_sum (\<lambda>e. e)
     (map (\<lambda>m. (movie_group.movieId m, averageOccupancy m, earliestShowtime m)))
     (rankMovies [screening 5 600 None, screening 3 700 (Some (hall 60)),
                  screening 9 800 (Some (hall 80)), screening 4 600 None])
   = Inr [(9, Some 80, 800), (3, Some 60, 700), (4, None, 600), (5, None, 600)]"
  by (simp add: ranking_eval)

lemma mixed_group:
  "map_sum (\<lambda>e. e)
     (map (\<lambda>m. (movie_group.movieId m, averageOccupancy m)))
     (rankMovies [screening 1 600 (Some (hall 80)), screening 1 700 None,
                  screening 2 600 (Some (hall 60))])
   = Inr [(1, Some 80), (2, Some 60)]"
  by (simp add: ranking_eval)

lemma empty_hall:
  "map_sum (\<lambda>e. e)
     (map (\<lambda>m. (movie_group.movieId m, totalSeatsBooked m, totalSeatsAvailable m)))
     (rankMovies [screening 1 600 (Some (hall 0)), screening 1 700 None])
   = Inr [(1, None, Some 100)]"
  by (simp add: ranking_eval)


text \<open>
  C1 as stated fails in its last clause. The groups are read with \<^verbatim>\<open>Object.values\<close>, which
  lists the keys that are array indices in ascending numeric order, not in the order in
  which the groups were formed. Two movies without seat data and with the same earliest
  start tie; the group of movie 2 is formed first, and movie 1 is ranked first.
\<close>

theorem formation_order_counterexample:
  "map fst (groupByMovie [screening 2 600 None, screening 1 600 None]) = [2, 1]
   \<and> map_sum (\<lambda>e. e)
        (map (\<lambda>m. (movie_group.movieId m, averageOccupancy m, earliestShowtime m)))
        (rankMovies [screening 2 600 None, screening 1 600 None])
     = Inr [(1, None, 600), (2, None, 600)]"
proof -
  have "map fst (groupByMovie [screening 2 600 None, screening 1 600 None]) = [2, 1]"
    by (simp add: ranking_eval)
  with two_unknown_movies show ?thesis by (rule conjI [rotated])
qed

theorem ranking_order_witness:
  "\<exists>ms rs. rankMovies [screening 5 600 None, screening 3 700 (Some (hall 60)),
                        screening 9 800 (Some (hall 80)), screening 4 600 None] = Inr rs
     \<and> map movie_group.movieId ms = [3, 4, 5, 9]
     \<and> mset rs = mset ms
     \<and> map (\<lambda>m. (movie_group.movieId m, averageOccupancy m, earliestShowtime m)) rs
         = [(9, Some 80, 800), (3, Some 60, 700), (4, None, 600), (5, None, 600)]"
proof -
  let ?S = "[screening 5 600 None, screening 3 700 (Some (hall 60)),
             screening 9 800 (Some (hall 80)), screening 4 600 None]"
  from ranking_order [of ?S] obtain ms rs
    where r: "rankMovies ?S = Inr rs"
      and k: "map movie_group.movieId ms
         = sort (filter isArrayIndex (firstSeen ?S)) @ filter (\<lambda>k. \<not> isArrayIndex k) (firstSeen ?S)"
      and p: "mset rs = mset ms"
    by blast
  have "firstSeen ?S = [5, 3, 9, 4]" by (simp add: firstSeen_def screening_def)
  then have k': "map movie_group.movieId ms = [3, 4, 5, 9]"
    using k by (simp add: isArrayIndex_def)
  have e: "map (\<lambda>m. (movie_group.movieId m, averageOccupancy m, earliestShowtime m)) rs
         = [(9, Some 80, 800), (3, Some 60, 700), (4, None, 600), (5, None, 600)]"
    using four_movies by (simp only: r map_sum.simps sum.inject)
  from r k' p e
  have "rankMovies ?S = Inr rs
     \<and> map movie_group.movieId ms = [3, 4, 5, 9]
     \<and> mset rs = mset ms
     \<and> map (\<lambda>m. (movie_group.movieId m, averageOccupancy m, earliestShowtime m)) rs
         = [(9, Some 80, 800), (3, Some 60, 700), (4, None, 600), (5, None, 600)]"
    by (intro conjI)
  then show ?thesis by (intro exI)
qed

theorem average_occupancy_mean_witness:
  "\<exists>rs. rankMovies [screening 1 600 (Some (hall 80)), screening 1 700 None,
                     screening 2 600 (Some (hall 60))] = Inr rs
     \<and> map (\<lambda>m. (movie_group.movieId m, averageOccupancy m)) rs
         = [(1, Some (Math_round (80 / 1))), (2, Some (Math_round (60 / 1)))]"
proof -
  let ?S = "[screening 1 600 (Some (hall 80)), screening 1 700 None,
             screening 2 600 (Some (hall 60))]"
  from average_occupancy_mean [of ?S] obtain rs
    where r: "rankMovies ?S = Inr rs"
      and a: "\<forall>m \<in> set rs.
          (\<forall>ps. ps = List.map_filter session.occupancyPercentage
                          (filter (\<lambda>s. session.movieId s = movie_group.movieId m) ?S)
                   \<and> ps \<noteq> [] \<and> \<bar>sum_list ps\<bar> < 2 ^ 52
               \<longrightarrow> averageOccupancy m
                   = Some (Math_round (of_int (sum_list ps) / of_nat (length ps))))"
    by blast
  have ids: "map movie_group.movieId rs = [1, 2]"
  proof -
    have "map (\<lambda>m. (movie_group.movieId m, averageOccupancy m)) rs = [(1, Some 80), (2, Some 60)]"
      using mixed_group by (simp only: r map_sum.simps sum.inject)
    then have "map fst (map (\<lambda>m. (movie_group.movieId m, averageOccupancy m)) rs)
               = map fst [(1::nat, Some (80::int)), (2, Some 60)]"
      by (simp only:)
    then show ?thesis by (simp add: comp_def)
  qed
  then obtain m1 m2 where rs: "rs = [m1, m2]"
    and i1: "movie_group.movieId m1 = 1" and i2: "movie_group.movieId m2 = 2"
    by (auto simp: map_eq_Cons_conv)
  have "averageOccupancy m1 = Some (Math_round (80 / 1))"
    using a rs i1 by (simp add: List.map_filter_def screening_def hall_def)
  moreover have "averageOccupancy m2 = Some (Math_round (60 / 1))"
    using a rs i2 by (simp add: List.map_filter_def screening_def hall_def)
  ultimately show ?thesis using r rs i1 i2 by simp
qed

theorem total_seats_sums_witness:
  "\<exists>rs. rankMovies [screening 1 600 (Some (hall 0)), screening 1 700 None] = Inr rs
     \<and> map (\<lambda>m. (movie_group.movieId m, totalSeatsBooked m, totalSeatsAvailable m)) rs
         = [(1, None, Some 100)]"
proof -
  let ?S = "[screening 1 600 (Some (hall 0)), screening 1 700 None]"
  from total_seats_sums [of ?S] obtain rs
    where r: "rankMovies ?S = Inr rs"
      and t: "\<forall>m \<in> set rs.
          totalSeatsBooked m
          = (let booked = (\<Sum>s\<leftarrow>filter (\<lambda>s. session.movieId s = movie_group.movieId m) ?S.
                             case session.occupiedSeats s of None \<Rightarrow> 0 | Some n \<Rightarrow> n)
             in if booked = 0 then None else Some booked)
          \<and> totalSeatsAvailable m
          = (let seats = (\<Sum>s\<leftarrow>filter (\<lambda>s. session.movieId s = movie_group.movieId m) ?S.
                            case session.totalSeats s of None \<Rightarrow> 0 | Some n \<Rightarrow> n)
             in if seats = 0 then None else Some seats)"
    by blast
  have "map (\<lambda>m. (movie_group.movieId m, totalSeatsBooked m, totalSeatsAvailable m)) rs
         = [(1, None, Some 100)]"
    using empty_hall by (simp only: r map_sum.simps sum.inject)
  then obtain m where rs: "rs = [m]" and i: "movie_group.movieId m = 1"
    by (auto simp: map_eq_Cons_conv)
  have "totalSeatsBooked m = None \<and> totalSeatsAvailable m = Some 100"
    using t rs i by (simp add: screening_def hall_def)
  with r rs i show ?thesis by simp
qed

subsection \<open>The whole function\<close>

text \<open>
  Settling a fetch never raises the number of awaited fetches, so no more fetches are ever
  awaited than workers were started. With the limits 5 and 15 that the function passes,
  neither batch throws, and no group is empty when its earliest showtime is taken: the
  function ends with no theatres, no showtimes, or a ranking.
\<close>

lemma inflight_bounded:
  "length (inflight (settle handle i p)) \<le> length (inflight p)" if "i < length (inflight p)"
  using that by (cases "queue p") (simp_all add: settle_def processNext_def)

lemma loadTheatresAndShowtimes_no_failure:
  "loadTheatresAndShowtimes fetchTheatres fetchShowtimes fetchSeatAvailability
     sched1 sched2 locations selectedDate \<noteq> Failed e"
proof -
  define allTheatres where "allTheatres = locateTheatres fetchTheatres locations"
  have "(1::int) \<le> 5" by simp
  from runBatch_positive [OF this, of sched1 "showtimesResult fetchShowtimes selectedDate" allTheatres]
  obtain rs where rs: "fetchShowtimesForTheatres sched1 fetchShowtimes allTheatres selectedDate 5 = Inr rs"
    unfolding fetchShowtimesForTheatres_def by blast
  from enrichSessions_eq [of sched2 fetchSeatAvailability "collectSessions rs"]
  obtain m where m: "enrichSessions sched2 fetchSeatAvailability (collectSessions rs)
                     = Inr (map (enrich m) (collectSessions rs))"
    by blast
  from ranked_groupMetrics [of "map (enrich m) (collectSessions rs)"]
  obtain ranked where r: "rankMovies (map (enrich m) (collectSessions rs)) = Inr ranked"
    by blast
  show ?thesis
    by (simp add: loadTheatresAndShowtimes_def Let_def allTheatres_def [symmetric] rs m r)
qed

end
